theory Spec2Isabelle
  imports Main
begin

section \<open>Appointment status synchronisation (heal/src/services/appointmentService)\<close>

text \<open>
  The service keeps four pieces of module state: the pending-operation queue and the
  \<open>isProcessing\<close> flag of the singleton \<open>AppointmentSyncManager\<close>, the variable
  \<open>lastSuccessfulEndpoint\<close> and the object \<open>MOCK_DATA.appointments\<close>. It reads and
  writes three \<open>localStorage\<close> keys (\<open>token\<close>, \<open>cachedAppointments\<close>,
  \<open>pendingAppointmentOperations\<close>), reads \<open>navigator.onLine\<close> and talks to the server
  through \<open>axios\<close>. All of this is one explicit state record below; the server is an
  oracle that answers a request given the requests issued before it.

  Conventions of the embedding:
  \<^item> An ISO-8601 date string is represented by the instant it denotes (milliseconds since
    the epoch), so \<open>new Date(ts).getTime()\<close> is the identity and \<open>new Date().toISOString()\<close>
    is the clock reading \<open>now\<close> handed to the operation; one reading serves a whole call.
  \<^item> A \<open>localStorage\<close> item is \<open>Missing\<close> (\<open>getItem\<close> gives \<open>null\<close>, or the empty string,
    which the source's truthiness tests treat alike), \<open>Garbled\<close> (a string on which
    \<open>JSON.parse\<close> throws) or \<open>Json v\<close> (the serialisation of \<open>v\<close>); a stored string that
    parses to a value of another shape is not represented. Writes to \<open>localStorage\<close> are
    taken to succeed. The \<open>token\<close> item is a plain string, \<open>None\<close> when \<open>getItem\<close> gives
    \<open>null\<close>.
  \<^item> A request is its verb, its address and its \<open>{ status }\<close> body; the headers that
    \<open>authHeader()\<close> of \<open>authService\<close> supplies are left out. An answered request carries
    a body with a \<open>data\<close> field, which may be \<open>null\<close>.
  \<^item> A JavaScript string is the list of its UTF-16 code units, so \<open>length\<close> counts what
    \<open>String.prototype.length\<close> counts; \<open>js\<close> turns a literal of Latin-1 characters into
    such a list. \<open>MOCK_DATA.appointments\<close> is a map from identifiers; the properties that
    a JavaScript object inherits from its prototype are not keys of it.
  \<^item> A record field that would clash with another record's field, with a HOL constant or
    with a keyword carries a prefix: \<open>appt_id\<close> is \<open>Appointment._id\<close>, \<open>op_id\<close> is
    \<open>PendingOperation.id\<close>, \<open>http_method\<close> is the \<open>method\<close> of an endpoint.
  \<^item> A call that the source does not \<open>await\<close> (\<open>this.syncPendingOperations()\<close> inside
    \<open>addPendingOperation\<close>, and the same call in \<open>getUserAppointments\<close>) runs up to its
    first suspension and leaves a pass in flight; the rest of the pass happens in later
    steps, one queued operation per step. A call of an exported function is one step.
\<close>

subsection \<open>Data model\<close>

text \<open>A UTF-16 code unit: \<open>Latin c\<close> is the unit with the code of the character \<open>c\<close> (0 to
  255), \<open>Beyond n\<close> is the unit \<open>256 + n\<close>.\<close>

datatype code_unit = Latin char | Beyond nat

type_synonym jsstring = "code_unit list"

abbreviation js :: "string \<Rightarrow> jsstring" where
  "js s \<equiv> map Latin s"

type_synonym instant = nat

datatype appointment_status = Pending | Confirmed | Cancelled

record Appointment =
  appt_id :: jsstring
  doctorId :: jsstring
  userId :: jsstring
  date :: instant
  appt_status :: appointment_status
  createdAt :: instant
  updatedAt :: instant

record PendingOperation =
  op_id :: jsstring
  op_status :: appointment_status
  timestamp :: instant

record endpoint =
  url :: jsstring
  http_method :: jsstring

text \<open>What \<open>axios\<close> is called with: verb, address and the \<open>{ status }\<close> body (absent for a \<open>GET\<close>).\<close>

record request =
  req_method :: jsstring
  req_url :: jsstring
  req_data :: "appointment_status option"

text \<open>
  How an \<open>axios\<close> promise rejects: with \<open>error.response\<close> (an HTTP status outside 2xx, the
  \<open>error\<close> field of the body if any, and the requested address), with \<open>error.request\<close> only
  (nothing came back), or with neither.
\<close>

datatype failure =
  Response nat "jsstring option" jsstring
  | NoResponse
  | Setup jsstring

text \<open>What awaiting an \<open>axios\<close> call gives: the payload of a 2xx answer, or the rejection.\<close>

datatype 'a outcome = Success 'a | Failure failure

text \<open>What is stored under a \<open>localStorage\<close> key that the service reads with \<open>JSON.parse\<close>.\<close>

datatype 'a item = Missing | Garbled | Json 'a

text \<open>A drain pass suspended between two operations: what is left of its snapshot, and
  the local \<open>operationsToRemove\<close>.\<close>

record pass =
  todo :: "PendingOperation list"
  operationsToRemove :: "jsstring list"

record state =
  pendingOperations :: "PendingOperation list"
  isProcessing :: bool
  lastSuccessfulEndpoint :: "endpoint option"
  MOCK_DATA :: "jsstring \<rightharpoonup> Appointment"
  token :: "jsstring option"
  cachedAppointments :: "Appointment list item"
  pendingAppointmentOperations :: "PendingOperation list item"
  onLine :: bool
  requests :: "request list"
  floating :: "pass list"

text \<open>
  The surroundings of the service: \<open>API_URL\<close> (a constant of \<open>authService\<close>), the server's
  answer to a status mutation (\<open>response.data.data\<close>, possibly \<open>null\<close>) and to the listing
  request, each as a function of the requests issued so far.
\<close>

record environment =
  API_URL :: jsstring
  axios :: "request list \<Rightarrow> request \<Rightarrow> Appointment option outcome"
  axios_get :: "request list \<Rightarrow> request \<Rightarrow> Appointment list outcome"

subsection \<open>The pending-operation queue\<close>

text \<open>\<open>Array.prototype.findIndex\<close>; \<open>None\<close> stands for \<open>-1\<close>.\<close>

fun findIndex :: "('a \<Rightarrow> bool) \<Rightarrow> 'a list \<Rightarrow> nat option" where
  "findIndex P [] = None"
| "findIndex P (x # xs) =
     (if P x then Some 0 else map_option Suc (findIndex P xs))"

definition loadPendingOperations :: "state \<Rightarrow> state" where
  "loadPendingOperations s =
     (case pendingAppointmentOperations s of
        Missing \<Rightarrow> s
      | Garbled \<Rightarrow> s\<lparr>pendingOperations := []\<rparr>
      | Json ops \<Rightarrow> s\<lparr>pendingOperations := ops\<rparr>)"

definition savePendingOperations :: "state \<Rightarrow> state" where
  "savePendingOperations s = s\<lparr>pendingAppointmentOperations := Json (pendingOperations s)\<rparr>"

text \<open>The synchronous statements of \<open>addPendingOperation\<close>: overwrite the entry of \<open>id\<close>
  in place when there is one, append otherwise, then persist.\<close>

definition enqueue :: "instant \<Rightarrow> jsstring \<Rightarrow> appointment_status \<Rightarrow> state \<Rightarrow> state" where
  "enqueue now ident st s =
     (let new = \<lparr>op_id = ident, op_status = st, timestamp = now\<rparr>;
          q = pendingOperations s;
          q' = (case findIndex (\<lambda>op. op_id op = ident) q of
                  Some existingIndex \<Rightarrow> q[existingIndex := new]
                | None \<Rightarrow> q @ [new])
      in savePendingOperations (s\<lparr>pendingOperations := q'\<rparr>))"

subsection \<open>Talking to the server\<close>

text \<open>
  \<open>String.prototype.trim\<close> removes, at both ends, the code units that ECMAScript calls
  white space or line terminators: U+0009 to U+000D, U+0020, U+00A0, U+1680, U+2000 to
  U+200A, U+2028, U+2029, U+202F, U+205F, U+3000 and U+FEFF.
\<close>

fun whitespace :: "code_unit \<Rightarrow> bool" where
  "whitespace (Latin c) \<longleftrightarrow>
     c \<in> set [CHR 0x09, CHR 0x0A, CHR 0x0B, CHR 0x0C, CHR 0x0D, CHR 0x20, CHR 0xA0]"
| "whitespace (Beyond n) \<longleftrightarrow>
     256 + n \<in> set [0x1680, 0x2028, 0x2029, 0x202F, 0x205F, 0x3000, 0xFEFF]
     \<or> (0x2000 \<le> 256 + n \<and> 256 + n \<le> 0x200A)"

definition trim :: "jsstring \<Rightarrow> jsstring" where
  "trim s = rev (dropWhile whitespace (rev (dropWhile whitespace s)))"

text \<open>What a \<open>throw\<close> carries: a rejected \<open>axios\<close> promise, or \<open>new Error(message)\<close>.\<close>

datatype thrown = AxiosError failure | Error jsstring

text \<open>The request made to a candidate endpoint.\<close>

definition endpoint_request :: "endpoint \<Rightarrow> appointment_status \<Rightarrow> request" where
  "endpoint_request e st = \<lparr>req_method = http_method e, req_url = url e, req_data = Some st\<rparr>"

text \<open>
  The loop \<open>for (const endpoint of endpoints) { try { ... return response.data.data } catch
  (error) { lastError = error } }\<close>, which \<open>syncAppointmentToDatabase\<close> and
  \<open>updateAppointmentStatus\<close> both contain: every candidate is requested in turn, the first
  one that answers is remembered in \<open>lastSuccessfulEndpoint\<close> and its payload returned;
  when none answers the loop ends with \<open>lastError\<close>.
\<close>

fun try_endpoints ::
  "environment \<Rightarrow> appointment_status \<Rightarrow> endpoint list \<Rightarrow> failure option \<Rightarrow> state
    \<Rightarrow> (failure option + Appointment option) \<times> state" where
  "try_endpoints env st [] lastError s = (Inl lastError, s)"
| "try_endpoints env st (e # es) lastError s =
     (let r = endpoint_request e st;
          s1 = s\<lparr>requests := requests s @ [r]\<rparr>
      in case axios env (requests s) r of
           Success a \<Rightarrow> (Inr a, s1\<lparr>lastSuccessfulEndpoint := Some e\<rparr>)
         | Failure f \<Rightarrow> try_endpoints env st es (Some f) s1)"

definition sync_endpoints :: "jsstring \<Rightarrow> jsstring \<Rightarrow> endpoint list" where
  "sync_endpoints api cleanId =
     [\<lparr>url = api @ js ''/appointments/'' @ cleanId, http_method = js ''PATCH''\<rparr>,
      \<lparr>url = api @ js ''/appointments/'' @ cleanId @ js ''/status'', http_method = js ''PUT''\<rparr>,
      \<lparr>url = api @ js ''/appointments/status/'' @ cleanId, http_method = js ''PUT''\<rparr>,
      \<lparr>url = api @ js ''/appointment/'' @ cleanId, http_method = js ''PATCH''\<rparr>,
      \<lparr>url = api @ js ''/appointment/status/'' @ cleanId, http_method = js ''PUT''\<rparr>]"

definition syncAppointmentToDatabase ::
  "environment \<Rightarrow> jsstring \<Rightarrow> appointment_status \<Rightarrow> state \<Rightarrow> (thrown + Appointment option) \<times> state" where
  "syncAppointmentToDatabase env ident st s =
     (let cleanId = trim ident
      in case try_endpoints env st (sync_endpoints (API_URL env) cleanId) None s of
           (Inr a, s') \<Rightarrow> (Inr a, s')
         | (Inl (Some lastError), s') \<Rightarrow> (Inl (AxiosError lastError), s')
         | (Inl None, s') \<Rightarrow> (Inl (Error (js ''All endpoints failed during database sync'')), s'))"

subsection \<open>The drain pass\<close>

text \<open>The body of \<open>for (const operation of sortedOperations)\<close>: a synced operation's id is
  pushed on \<open>operationsToRemove\<close>, a failed one ends the loop (\<open>break\<close>).\<close>

fun drain_loop ::
  "environment \<Rightarrow> PendingOperation list \<Rightarrow> jsstring list \<Rightarrow> state \<Rightarrow> jsstring list \<times> state" where
  "drain_loop env [] rm s = (rm, s)"
| "drain_loop env (operation # rest) rm s =
     (case syncAppointmentToDatabase env (op_id operation) (op_status operation) s of
        (Inr _, s') \<Rightarrow> drain_loop env rest (rm @ [op_id operation]) s'
      | (Inl _, s') \<Rightarrow> (rm, s'))"

text \<open>After the loop: drop the synced ids from the queue and persist it (only when something
  was synced), then clear \<open>isProcessing\<close>.\<close>

definition finish_pass :: "jsstring list \<Rightarrow> state \<Rightarrow> state" where
  "finish_pass rm s =
     (let s' = (if length rm > 0
                then savePendingOperations
                       (s\<lparr>pendingOperations := filter (\<lambda>op. op_id op \<notin> set rm) (pendingOperations s)\<rparr>)
                else s)
      in s'\<lparr>isProcessing := False\<rparr>)"

text \<open>\<open>syncPendingOperations\<close> run from its call to its end with nothing else in between.
  The snapshot is sorted oldest first; \<open>Array.prototype.sort\<close> is stable, as \<open>sort_key\<close> is.\<close>

definition syncPendingOperations :: "environment \<Rightarrow> state \<Rightarrow> state" where
  "syncPendingOperations env s =
     (if isProcessing s \<or> length (pendingOperations s) = 0 \<or> \<not> onLine s then s
      else let s1 = s\<lparr>isProcessing := True\<rparr>;
               sortedOperations = sort_key timestamp (pendingOperations s1);
               (rm, s2) = drain_loop env sortedOperations [] s1
           in finish_pass rm s2)"

text \<open>
  The same function when the caller does not wait for it. \<open>spawn_sync\<close> is the part that runs
  before the first suspension: the guard, \<open>isProcessing = true\<close> and the sorted snapshot.
  \<open>resume env k\<close> lets the \<open>k\<close>-th pass in flight handle the next operation of its snapshot,
  and finish when that operation fails or was the last one. (The first request of a pass
  leaves the browser before the suspension; it is logged with its answer, by the first
  \<open>resume\<close>.)
\<close>

definition spawn_sync :: "state \<Rightarrow> state" where
  "spawn_sync s =
     (if isProcessing s \<or> length (pendingOperations s) = 0 \<or> \<not> onLine s then s
      else s\<lparr>isProcessing := True,
             floating := floating s @
               [\<lparr>todo = sort_key timestamp (pendingOperations s), operationsToRemove = []\<rparr>]\<rparr>)"

definition resume :: "environment \<Rightarrow> nat \<Rightarrow> state \<Rightarrow> state" where
  "resume env k s =
     (if length (floating s) \<le> k then s
      else let p = floating s ! k;
               others = take k (floating s) @ drop (Suc k) (floating s)
           in case todo p of
                [] \<Rightarrow> finish_pass (operationsToRemove p) (s\<lparr>floating := others\<rparr>)
              | operation # rest \<Rightarrow>
                  (case syncAppointmentToDatabase env (op_id operation) (op_status operation) s of
                     (Inr _, s') \<Rightarrow>
                       (let rm = operationsToRemove p @ [op_id operation]
                        in if rest = [] then finish_pass rm (s'\<lparr>floating := others\<rparr>)
                           else s'\<lparr>floating := (floating s)[k := \<lparr>todo = rest, operationsToRemove = rm\<rparr>]\<rparr>)
                   | (Inl _, s') \<Rightarrow> finish_pass (operationsToRemove p) (s'\<lparr>floating := others\<rparr>)))"

text \<open>\<open>addPendingOperation\<close>: enqueue, then \<open>if (navigator.onLine) this.syncPendingOperations()\<close>
  without waiting for it.\<close>

definition addPendingOperation :: "instant \<Rightarrow> jsstring \<Rightarrow> appointment_status \<Rightarrow> state \<Rightarrow> state" where
  "addPendingOperation now ident st s =
     (let s1 = enqueue now ident st s
      in if onLine s1 then spawn_sync s1 else s1)"

text \<open>Module start: every variable at its initialiser, then the constructor of the manager,
  which loads the durable copy of the queue.\<close>

definition module_start ::
  "jsstring option \<Rightarrow> Appointment list item \<Rightarrow> PendingOperation list item \<Rightarrow> bool \<Rightarrow> state" where
  "module_start tok cache stored online =
     loadPendingOperations
       \<lparr>pendingOperations = [], isProcessing = False, lastSuccessfulEndpoint = None,
        MOCK_DATA = Map.empty, token = tok, cachedAppointments = cache,
        pendingAppointmentOperations = stored, onLine = online, requests = [],
        floating = []\<rparr>"

subsection \<open>Changing a status\<close>

text \<open>The character class \<open>[a-f0-9]\<close>.\<close>

fun hex_digit :: "code_unit \<Rightarrow> bool" where
  "hex_digit (Latin c) \<longleftrightarrow> c \<in> set ''abcdef0123456789''"
| "hex_digit (Beyond n) \<longleftrightarrow> False"

text \<open>
  The regular expression \<open>/\/[a-f0-9]{24}(?:\/|$)/\<close> matches at the head of a string: a
  slash, exactly 24 lower-case hexadecimal digits, then a slash or the end of the string.
\<close>

definition segment_here :: "jsstring \<Rightarrow> bool" where
  "segment_here u \<longleftrightarrow>
     (case u of
        [] \<Rightarrow> False
      | c # cs \<Rightarrow>
          c = Latin CHR ''/'' \<and> 24 \<le> length cs \<and> list_all hex_digit (take 24 cs)
          \<and> (drop 24 cs = [] \<or> hd (drop 24 cs) = Latin CHR ''/''))"

text \<open>
  What \<open>String.prototype.replace\<close> makes of a replacement string: \<open>$$\<close> stands for a
  dollar sign, \<open>$&\<close> for the matched text, \<open>$`\<close> for the text before the match and
  \<open>$'\<close> for the text after it. The expression has no capture groups, so every other
  \<open>$\<close> stands for itself.
\<close>

fun expand :: "jsstring \<Rightarrow> jsstring \<Rightarrow> jsstring \<Rightarrow> jsstring \<Rightarrow> jsstring" where
  "expand (d # x # r) matched before after =
     (if d = Latin CHR ''$'' \<and> x = Latin CHR ''$'' then Latin CHR ''$'' # expand r matched before after
      else if d = Latin CHR ''$'' \<and> x = Latin CHR ''&'' then matched @ expand r matched before after
      else if d = Latin CHR ''$'' \<and> x = Latin (CHR 0x60) then before @ expand r matched before after
      else if d = Latin CHR ''$'' \<and> x = Latin (CHR 0x27) then after @ expand r matched before after
      else d # expand (x # r) matched before after)"
| "expand r matched before after = r"

text \<open>
  \<open>url.replace(/\/[a-f0-9]{24}(?:\/|$)/, `/${cleanId}`)\<close>: the leftmost match, with its
  closing slash if it has one, is replaced by the expansion of a slash followed by
  \<open>cleanId\<close>; a string without a match is returned as it is. \<open>replace_from\<close> walks along
  the string, \<open>before\<close> being what it has passed.
\<close>

fun replace_from :: "jsstring \<Rightarrow> jsstring \<Rightarrow> jsstring \<Rightarrow> jsstring" where
  "replace_from before [] cleanId = before"
| "replace_from before (c # cs) cleanId =
     (if segment_here (c # cs)
      then let n = (if drop 24 cs = [] then 25 else 26);
               matched = take n (c # cs);
               after = drop n (c # cs)
           in before @ expand (Latin CHR ''/'' # cleanId) matched before after @ after
      else replace_from (before @ [c]) cs cleanId)"

definition replace_id :: "jsstring \<Rightarrow> jsstring \<Rightarrow> jsstring" where
  "replace_id u cleanId = replace_from [] u cleanId"

definition candidate_endpoints :: "jsstring \<Rightarrow> jsstring \<Rightarrow> endpoint list" where
  "candidate_endpoints api cleanId =
     [\<lparr>url = api @ js ''/appointments/'' @ cleanId, http_method = js ''PATCH''\<rparr>,
      \<lparr>url = api @ js ''/appointments/status/'' @ cleanId, http_method = js ''PUT''\<rparr>,
      \<lparr>url = api @ js ''/appointment/'' @ cleanId, http_method = js ''PATCH''\<rparr>,
      \<lparr>url = api @ js ''/appointment/status/'' @ cleanId, http_method = js ''PUT''\<rparr>,
      \<lparr>url = api @ js ''/appointments?id='' @ cleanId, http_method = js ''PATCH''\<rparr>,
      \<lparr>url = api @ js ''/appointment?id='' @ cleanId, http_method = js ''PATCH''\<rparr>,
      \<lparr>url = api @ js ''/appointments/status?id='' @ cleanId, http_method = js ''PUT''\<rparr>,
      \<lparr>url = api @ js ''/appointment/status?id='' @ cleanId, http_method = js ''PUT''\<rparr>,
      \<lparr>url = api @ js ''/updateAppointment/'' @ cleanId, http_method = js ''POST''\<rparr>,
      \<lparr>url = api @ js ''/cancelAppointment/'' @ cleanId, http_method = js ''POST''\<rparr>]"

text \<open>The request made to the remembered endpoint, when there is one.\<close>

definition cached_request :: "endpoint \<Rightarrow> jsstring \<Rightarrow> appointment_status \<Rightarrow> request" where
  "cached_request e cleanId st =
     \<lparr>req_method = http_method e, req_url = replace_id (url e) cleanId, req_data = Some st\<rparr>"

text \<open>\<open>if (lastSuccessfulEndpoint) { try { ... return response.data.data } catch (error) { } }\<close>:
  \<open>Some payload\<close> when the remembered endpoint answered, \<open>None\<close> to fall through.\<close>

definition try_cached ::
  "environment \<Rightarrow> jsstring \<Rightarrow> appointment_status \<Rightarrow> state \<Rightarrow> Appointment option option \<times> state" where
  "try_cached env cleanId st s =
     (case lastSuccessfulEndpoint s of
        None \<Rightarrow> (None, s)
      | Some e \<Rightarrow>
          (let r = cached_request e cleanId st;
               s1 = s\<lparr>requests := requests s @ [r]\<rparr>
           in case axios env (requests s) r of
                Success a \<Rightarrow> (Some a, s1)
              | Failure _ \<Rightarrow> (None, s1)))"

text \<open>
  The code after the two loops: take the record of \<open>cleanId\<close> from \<open>MOCK_DATA\<close>, else from the
  cached list, else make one up; give it the wanted status; store it in \<open>MOCK_DATA\<close> and in
  place of every cached record with that id. A cache that is missing or does not parse is
  left as it is.
\<close>

definition mock_fallback ::
  "instant \<Rightarrow> jsstring \<Rightarrow> appointment_status \<Rightarrow> state \<Rightarrow> Appointment \<times> state" where
  "mock_fallback now cleanId st s =
     (let known =
            (case MOCK_DATA s cleanId of
               Some a \<Rightarrow> Some a
             | None \<Rightarrow>
                 (case cachedAppointments s of
                    Json appointments \<Rightarrow> find (\<lambda>a. appt_id a = cleanId) appointments
                  | _ \<Rightarrow> None));
          base =
            (case known of
               Some a \<Rightarrow> a
             | None \<Rightarrow>
                 \<lparr>appt_id = cleanId, doctorId = [], userId = [], date = now,
                  appt_status = Pending, createdAt = now, updatedAt = now\<rparr>);
          mock = base\<lparr>appt_status := st, updatedAt := now\<rparr>;
          s1 = s\<lparr>MOCK_DATA := (MOCK_DATA s)(cleanId \<mapsto> mock)\<rparr>;
          s2 = (case cachedAppointments s1 of
                  Json appointments \<Rightarrow>
                    s1\<lparr>cachedAppointments :=
                         Json (map (\<lambda>a. if appt_id a = cleanId then mock else a) appointments)\<rparr>
                | _ \<Rightarrow> s1)
      in (mock, s2))"

text \<open>The \<open>try\<close> block of \<open>updateAppointmentStatus\<close>.\<close>

definition updateAppointmentStatus_try ::
  "environment \<Rightarrow> instant \<Rightarrow> jsstring \<Rightarrow> appointment_status \<Rightarrow> state
    \<Rightarrow> (thrown + Appointment option) \<times> state" where
  "updateAppointmentStatus_try env now ident st s =
     (if token s = None \<or> token s = Some []
      then (Inl (Error (js ''Your session has expired. Please sign in again.'')), s)
      else let cleanId = trim ident
           in if cleanId = [] \<or> length cleanId < 10
              then (Inl (Error (js ''Invalid appointment ID'')), s)
              else (case try_cached env cleanId st s of
                      (Some a, s1) \<Rightarrow> (Inr a, s1)
                    | (None, s1) \<Rightarrow>
                        (case try_endpoints env st
                                (candidate_endpoints (API_URL env) cleanId) None s1 of
                           (Inr a, s2) \<Rightarrow> (Inr a, s2)
                         | (Inl lastError, s2) \<Rightarrow>
                             (let s3 = addPendingOperation now cleanId st s2;
                                  (mock, s4) = mock_fallback now cleanId st s3
                              in (Inr (Some mock), s4)))))"

fun decimal :: "nat \<Rightarrow> string" where
  "decimal n =
     (if n < 10 then [char_of (48 + n)] else decimal (n div 10) @ [char_of (48 + n mod 10)])"

text \<open>The \<open>catch\<close> block of \<open>updateAppointmentStatus\<close>: whatever was thrown is turned into a
  new \<open>Error\<close>; a 401 or 403 answer also removes the stored token.\<close>

fun rethrow :: "thrown \<Rightarrow> state \<Rightarrow> thrown \<times> state" where
  "rethrow (AxiosError (Response code msg addr)) s =
     (if code = 404
      then (Error ((js ''Appointment update endpoint not found ('') @ addr
                   @ js ''). The API endpoint may have changed. Please contact support.''), s)
      else if code = 401 \<or> code = 403
      then (Error (js ''Your session has expired. Please sign in again.''), s\<lparr>token := None\<rparr>)
      else (Error (case msg of
                     Some m \<Rightarrow> if m = [] then (js ''Failed to update appointment: '') @ js (decimal code) else m
                   | None \<Rightarrow> (js ''Failed to update appointment: '') @ js (decimal code)), s))"
| "rethrow (AxiosError NoResponse) s =
     (Error ((js ''No response received from server. '')
             @ js ''Please check your internet connection and try again.''), s)"
| "rethrow (AxiosError (Setup m)) s = (Error ((js ''Request failed: '') @ m), s)"
| "rethrow (Error m) s = (Error ((js ''Request failed: '') @ m), s)"

definition updateAppointmentStatus ::
  "environment \<Rightarrow> instant \<Rightarrow> jsstring \<Rightarrow> appointment_status \<Rightarrow> state
    \<Rightarrow> (thrown + Appointment option) \<times> state" where
  "updateAppointmentStatus env now ident st s =
     (case updateAppointmentStatus_try env now ident st s of
        (Inr a, s') \<Rightarrow> (Inr a, s')
      | (Inl error, s') \<Rightarrow> (case rethrow error s' of (error', s'') \<Rightarrow> (Inl error', s'')))"

subsection \<open>Reading the appointments\<close>

definition list_request :: "environment \<Rightarrow> request" where
  "list_request env =
     \<lparr>req_method = js ''GET'', req_url = API_URL env @ js ''/appointments'', req_data = None\<rparr>"

definition getUserAppointments :: "environment \<Rightarrow> state \<Rightarrow> Appointment list \<times> state" where
  "getUserAppointments env s =
     (let s1 = s\<lparr>requests := requests s @ [list_request env]\<rparr>
      in case axios_get env (requests s) (list_request env) of
           Success data \<Rightarrow>
             (let s2 = s1\<lparr>cachedAppointments := Json data\<rparr>
              in (data, if onLine s2 then spawn_sync s2 else s2))
         | Failure _ \<Rightarrow>
             (case cachedAppointments s1 of
                Json appointments \<Rightarrow> (appointments, s1)
              | _ \<Rightarrow> ([], s1)))"


text \<open>The exported setter of the remembered endpoint.\<close>

definition setSuccessfulEndpoint :: "jsstring \<Rightarrow> jsstring \<Rightarrow> state \<Rightarrow> state" where
  "setSuccessfulEndpoint u m s = s\<lparr>lastSuccessfulEndpoint := Some \<lparr>url = u, http_method = m\<rparr>\<rparr>"

subsection \<open>The cancel control of the appointment list (AppointmentsList.tsx)\<close>

text \<open>
  The handler of the list's cancel button is the one place in the repository that calls
  \<open>updateAppointmentStatus\<close>, and it asks for \<open>cancelled\<close>. What the handler then does to
  the list it displays is not part of the service's state.
\<close>

definition handleCancelAppointment ::
  "environment \<Rightarrow> instant \<Rightarrow> jsstring \<Rightarrow> state \<Rightarrow> (thrown + Appointment option) \<times> state" where
  "handleCancelAppointment env now ident s = updateAppointmentStatus env now ident Cancelled s"

subsection \<open>Runs of the service\<close>

text \<open>
  What can happen to the module state, one event at a time: a call of an exported
  function, a change of connectivity or of the stored token, a trigger of the drain (the
  \<open>online\<close> listener, the manual sync), the progress of a pass in flight, and a click on
  the list's cancel button.
\<close>

datatype event =
  AddPending instant jsstring appointment_status
  | UpdateStatus instant jsstring appointment_status
  | GetAppointments
  | SyncTrigger
  | Resume nat
  | Connectivity bool
  | StoreToken "jsstring option"
  | SetEndpoint jsstring jsstring
  | CancelClicked instant jsstring

fun fire :: "environment \<Rightarrow> event \<Rightarrow> state \<Rightarrow> state" where
  "fire env (AddPending now ident st) s = addPendingOperation now ident st s"
| "fire env (UpdateStatus now ident st) s = snd (updateAppointmentStatus env now ident st s)"
| "fire env GetAppointments s = snd (getUserAppointments env s)"
| "fire env SyncTrigger s = spawn_sync s"
| "fire env (Resume k) s = resume env k s"
| "fire env (Connectivity b) s = s\<lparr>onLine := b\<rparr>"
| "fire env (StoreToken t) s = s\<lparr>token := t\<rparr>"
| "fire env (SetEndpoint u m) s = setSuccessfulEndpoint u m s"
| "fire env (CancelClicked now ident) s = snd (handleCancelAppointment env now ident s)"

definition run :: "environment \<Rightarrow> event list \<Rightarrow> state \<Rightarrow> state" where
  "run env evs s = fold (fire env) evs s"

subsection \<open>Vocabulary for the properties\<close>

text \<open>The queue invariant of the data model: one entry per appointment identifier.\<close>

definition one_entry_per_id :: "PendingOperation list \<Rightarrow> bool" where
  "one_entry_per_id q \<longleftrightarrow> distinct (map op_id q)"

text \<open>The status and time of the last \<open>addPendingOperation\<close> for an identifier in a run.\<close>

fun last_intent :: "event list \<Rightarrow> jsstring \<Rightarrow> (appointment_status \<times> instant) option" where
  "last_intent [] ident = None"
| "last_intent (ev # evs) ident =
     (case last_intent evs ident of
        Some x \<Rightarrow> Some x
      | None \<Rightarrow>
          (case ev of
             AddPending now i st \<Rightarrow> if i = ident then Some (st, now) else None
           | _ \<Rightarrow> None))"

fun calls_update :: "event \<Rightarrow> bool" where
  "calls_update (UpdateStatus now ident st) = True"
| "calls_update (CancelClicked now ident) = True"
| "calls_update ev = False"

text \<open>Every operation of a list syncs, one after the other; the state reached.\<close>

fun sync_all :: "environment \<Rightarrow> PendingOperation list \<Rightarrow> state \<Rightarrow> state option" where
  "sync_all env [] s = Some s"
| "sync_all env (operation # rest) s =
     (case syncAppointmentToDatabase env (op_id operation) (op_status operation) s of
        (Inr a, s') \<Rightarrow> sync_all env rest s'
      | (Inl e, s') \<Rightarrow> None)"

text \<open>Every request of a list is rejected when issued in turn after the history \<open>h\<close>.\<close>

fun answered :: "'a outcome \<Rightarrow> bool" where
  "answered (Success a) = True"
| "answered (Failure f) = False"

fun all_fail :: "environment \<Rightarrow> request list \<Rightarrow> request list \<Rightarrow> bool" where
  "all_fail env h [] = True"
| "all_fail env h (r # rs) = (\<not> answered (axios env h r) \<and> all_fail env (h @ [r]) rs)"

text \<open>The requests \<open>updateAppointmentStatus\<close> makes when none is answered: the remembered
  endpoint if any, then the ten candidates in order.\<close>

definition attempts :: "environment \<Rightarrow> state \<Rightarrow> jsstring \<Rightarrow> appointment_status \<Rightarrow> request list" where
  "attempts env s cleanId st =
     (case lastSuccessfulEndpoint s of
        None \<Rightarrow> []
      | Some e \<Rightarrow> [cached_request e cleanId st])
     @ map (\<lambda>e. endpoint_request e st) (candidate_endpoints (API_URL env) cleanId)"

text \<open>At most one pass is in flight, and \<open>isProcessing\<close> says whether one is.\<close>

definition single_pass :: "state \<Rightarrow> bool" where
  "single_pass s \<longleftrightarrow> length (floating s) \<le> 1 \<and> (isProcessing s \<longleftrightarrow> floating s \<noteq> [])"

text \<open>Every entry of a queue agrees with the last intent recorded for its identifier.\<close>

definition holds_last_intent :: "event list \<Rightarrow> PendingOperation list \<Rightarrow> bool" where
  "holds_last_intent evs q \<longleftrightarrow>
     (\<forall>op\<in>set q. case last_intent evs (op_id op) of
                    None \<Rightarrow> True
                  | Some (st, t) \<Rightarrow> op_status op = st \<and> timestamp op = t)"

text \<open>The regular expression matches somewhere in an address, and its leftmost match is the
  end of the address: the address ends in a slash and the 24 digits of an identifier.\<close>

fun first_segment :: "jsstring \<Rightarrow> nat option" where
  "first_segment [] = None"
| "first_segment (c # cs) =
     (if segment_here (c # cs) then Some 0 else map_option Suc (first_segment cs))"

definition ends_with_id :: "jsstring \<Rightarrow> bool" where
  "ends_with_id u \<longleftrightarrow>
     (case first_segment u of None \<Rightarrow> False | Some k \<Rightarrow> k + 25 = length u)"

text \<open>The request to the remembered endpoint with the current identifier substituted in: the
  endpoint's method, at its address with the identifier it ends in (the last 24
  characters) replaced by \<open>cleanId\<close>.\<close>

definition substituted_request :: "endpoint \<Rightarrow> jsstring \<Rightarrow> appointment_status \<Rightarrow> request" where
  "substituted_request e cleanId st =
     \<lparr>req_method = http_method e,
      req_url = take (length (url e) - 24) (url e) @ cleanId,
      req_data = Some st\<rparr>"

text \<open>
  The names every JavaScript object inherits from \<open>Object.prototype\<close>.
  \<open>MOCK_DATA.appointments\<close> is a plain object, so a lookup under one of these names finds
  the inherited property, where the map that stands for it here finds nothing. What is
  proved of the record the fall-back code makes is proved for the other identifiers.
\<close>

definition inherited_name :: "jsstring \<Rightarrow> bool" where
  "inherited_name k \<longleftrightarrow>
     k \<in> set (map js [''constructor'', ''hasOwnProperty'', ''isPrototypeOf'',
                        ''propertyIsEnumerable'', ''toLocaleString'', ''toString'',
                        ''valueOf'', ''__proto__'', ''__defineGetter__'',
                        ''__defineSetter__'', ''__lookupGetter__'', ''__lookupSetter__''])"

text \<open>The record the fall-back code starts from: the one kept in \<open>MOCK_DATA\<close>, else the
  first cached one with the identifier, else a made-up pending one.\<close>

definition known_record :: "instant \<Rightarrow> jsstring \<Rightarrow> state \<Rightarrow> Appointment" where
  "known_record now cleanId s =
     (case MOCK_DATA s cleanId of
        Some a \<Rightarrow> a
      | None \<Rightarrow>
          (case (case cachedAppointments s of
                   Json appointments \<Rightarrow> find (\<lambda>a. appt_id a = cleanId) appointments
                 | Missing \<Rightarrow> None
                 | Garbled \<Rightarrow> None) of
             Some a \<Rightarrow> a
           | None \<Rightarrow>
               \<lparr>appt_id = cleanId, doctorId = [], userId = [], date = now,
                appt_status = Pending, createdAt = now, updatedAt = now\<rparr>))"

text \<open>What \<open>MOCK_DATA\<close> keeps under an identifier is a record with that identifier.\<close>

definition mock_keyed_at :: "state \<Rightarrow> jsstring \<Rightarrow> bool" where
  "mock_keyed_at s k \<longleftrightarrow> (case MOCK_DATA s k of None \<Rightarrow> True | Some a \<Rightarrow> appt_id a = k)"

text \<open>
  Nothing but \<open>cancelled\<close> is on its way to the server: every queued operation, every
  operation in the snapshot of a pass in flight and every status sent so far is
  \<open>cancelled\<close>.
\<close>

definition cancel_only :: "state \<Rightarrow> bool" where
  "cancel_only s \<longleftrightarrow>
     list_all (\<lambda>op. op_status op = Cancelled) (pendingOperations s)
     \<and> list_all (\<lambda>p. list_all (\<lambda>op. op_status op = Cancelled) (todo p)) (floating s)
     \<and> list_all (\<lambda>r. req_data r = None \<or> req_data r = Some Cancelled) (requests s)"

text \<open>An event in which no status is asked of the service except by the list's cancel
  button.\<close>

fun from_the_list :: "event \<Rightarrow> bool" where
  "from_the_list (AddPending now ident st) = False"
| "from_the_list (UpdateStatus now ident st) = False"
| "from_the_list ev = True"

text \<open>Between two states of the cache, record by record, a status stays what it was or
  becomes \<open>cancelled\<close>.\<close>

fun only_cancels :: "Appointment list item \<Rightarrow> Appointment list item \<Rightarrow> bool" where
  "only_cancels (Json xs) (Json ys) =
     list_all2 (\<lambda>x y. appt_status y = appt_status x \<or> appt_status y = Cancelled) xs ys"
| "only_cancels Missing Missing = True"
| "only_cancels Garbled Garbled = True"
| "only_cancels c c' = False"

subsection \<open>Concrete situations\<close>

text \<open>A server that cannot be reached, one that answers only the very first request, and
  one that refuses every request with 401.\<close>

definition unreachable :: environment where
  "unreachable =
     \<lparr>API_URL = js ''/api'',
      axios = (\<lambda>h r. Failure NoResponse),
      axios_get = (\<lambda>h r. Failure NoResponse)\<rparr>"

definition answers_once :: environment where
  "answers_once =
     \<lparr>API_URL = js ''/api'',
      axios = (\<lambda>h r. if length h = 0 then Success None else Failure NoResponse),
      axios_get = (\<lambda>h r. Failure NoResponse)\<rparr>"

definition unauthorized :: environment where
  "unauthorized =
     \<lparr>API_URL = js ''/api'',
      axios = (\<lambda>h r. Failure (Response 401 None (req_url r))),
      axios_get = (\<lambda>h r. Failure (Response 401 None (req_url r)))\<rparr>"

text \<open>A signed-in session that has just started, on line, with nothing stored.\<close>

definition fresh :: state where
  "fresh = module_start (Some (js ''jwt'')) Missing Missing True"

text \<open>That session after one operation was queued: a pass is in flight.\<close>

definition draining :: state where
  "draining = run unreachable [AddPending 5 (js ''a'') Cancelled] fresh"

text \<open>Three operations queued out of time order, no pass running.\<close>

definition op_a :: PendingOperation where
  "op_a = \<lparr>op_id = js ''a'', op_status = Cancelled, timestamp = 20\<rparr>"

definition op_b :: PendingOperation where
  "op_b = \<lparr>op_id = js ''b'', op_status = Confirmed, timestamp = 10\<rparr>"

definition op_c :: PendingOperation where
  "op_c = \<lparr>op_id = js ''c'', op_status = Cancelled, timestamp = 30\<rparr>"

definition three_queued :: state where
  "three_queued = fresh\<lparr>pendingOperations := [op_a, op_b, op_c]\<rparr>"

text \<open>A signed-in session whose cache holds two appointments, the first one confirmed.\<close>

definition x_id :: jsstring where
  "x_id = js ''64b7f0a1c2d3e4f5a6b7c8d9''"

text \<open>The same identifier between a byte-order mark (U+FEFF), two spaces, a space and a
  no-break space (U+00A0).\<close>

definition padded_x_id :: jsstring where
  "padded_x_id = Beyond 65023 # js ''  64b7f0a1c2d3e4f5a6b7c8d9 '' @ [Latin (CHR 0xA0)]"

definition appt_x :: Appointment where
  "appt_x =
     \<lparr>appt_id = x_id, doctorId = js ''d1'', userId = js ''u1'', date = 900,
      appt_status = Confirmed, createdAt = 1, updatedAt = 2\<rparr>"

definition appt_y :: Appointment where
  "appt_y =
     \<lparr>appt_id = js ''64b7f0a1c2d3e4f5a6b7c8da'', doctorId = js ''d2'', userId = js ''u1'', date = 950,
      appt_status = Pending, createdAt = 3, updatedAt = 4\<rparr>"

definition signed_in :: state where
  "signed_in = module_start (Some (js ''jwt'')) (Json [appt_x, appt_y]) Missing True"

text \<open>The same session after the first appointment was cancelled while the server could
  not be reached, then after a listing request that the server answered with its own,
  older, records.\<close>

definition stale_server :: environment where
  "stale_server =
     \<lparr>API_URL = js ''/api'',
      axios = (\<lambda>h r. Failure NoResponse),
      axios_get = (\<lambda>h r. Success [appt_x, appt_y])\<rparr>"

definition after_offline_cancel :: state where
  "after_offline_cancel = snd (updateAppointmentStatus unreachable 7 x_id Cancelled signed_in)"

definition after_stale_fetch :: state where
  "after_stale_fetch = snd (getUserAppointments stale_server after_offline_cancel)"

text \<open>The session with an endpoint remembered from an earlier call for the second
  appointment, and a server where only the third request of a call is answered.\<close>

definition earlier_endpoint :: endpoint where
  "earlier_endpoint =
     \<lparr>url = js ''/api/appointments/64b7f0a1c2d3e4f5a6b7c8da'', http_method = js ''PATCH''\<rparr>"

definition remembered :: state where
  "remembered = signed_in\<lparr>lastSuccessfulEndpoint := Some earlier_endpoint\<rparr>"

definition third_answers :: environment where
  "third_answers =
     \<lparr>API_URL = js ''/api'',
      axios = (\<lambda>h r. if length h = 2 then Success (Some appt_x)
                     else Failure (Response 404 None (req_url r))),
      axios_get = (\<lambda>h r. Failure NoResponse)\<rparr>"

text \<open>The session when the first appointment is already cancelled in the cache.\<close>

definition cancelled_x :: state where
  "cancelled_x =
     signed_in\<lparr>cachedAppointments := Json [appt_x\<lparr>appt_status := Cancelled\<rparr>, appt_y]\<rparr>"

section \<open>Properties\<close>

subsection \<open>What the server calls leave alone\<close>

text \<open>Asking endpoints changes the request log and \<open>lastSuccessfulEndpoint\<close>, nothing else.\<close>

declare decimal.simps [simp del]

lemma try_endpoints_frame:
  "try_endpoints env st es le s = (r, s') \<Longrightarrow>
     pendingOperations s' = pendingOperations s \<and> isProcessing s' = isProcessing s
     \<and> MOCK_DATA s' = MOCK_DATA s \<and> token s' = token s
     \<and> cachedAppointments s' = cachedAppointments s
     \<and> pendingAppointmentOperations s' = pendingAppointmentOperations s
     \<and> onLine s' = onLine s \<and> floating s' = floating s"
proof (induction es arbitrary: le s)
  case Nil
  then show ?case by simp
next
  case (Cons e es)
  show ?case
  proof (cases "axios env (requests s) (endpoint_request e st)")
    case (Success a)
    with Cons.prems show ?thesis by (auto simp: Let_def)
  next
    case (Failure f)
    with Cons.prems have
      "try_endpoints env st es (Some f) (s\<lparr>requests := requests s @ [endpoint_request e st]\<rparr>) = (r, s')"
      by (simp add: Let_def)
    from Cons.IH [OF this] show ?thesis by simp
  qed
qed

lemma sync_frame:
  assumes "syncAppointmentToDatabase env ident st s = (r, s')"
  shows "pendingOperations s' = pendingOperations s \<and> isProcessing s' = isProcessing s
     \<and> MOCK_DATA s' = MOCK_DATA s \<and> token s' = token s
     \<and> cachedAppointments s' = cachedAppointments s
     \<and> pendingAppointmentOperations s' = pendingAppointmentOperations s
     \<and> onLine s' = onLine s \<and> floating s' = floating s"
proof -
  obtain r0 s0 where t: "try_endpoints env st (sync_endpoints (API_URL env) (trim ident)) None s = (r0, s0)"
    by (cases "try_endpoints env st (sync_endpoints (API_URL env) (trim ident)) None s")
  with assms have "s' = s0"
    by (auto simp: syncAppointmentToDatabase_def Let_def split: sum.splits option.splits)
  with try_endpoints_frame [OF t] show ?thesis by simp
qed

subsection \<open>One pass at a time\<close>

text \<open>\<open>single_pass\<close> holds at module start and every event keeps it.\<close>

lemma spawn_sync_single: "single_pass s \<Longrightarrow> single_pass (spawn_sync s)"
  by (auto simp: single_pass_def spawn_sync_def)

lemma finish_pass_fields:
  "floating (finish_pass rm s) = floating s" "isProcessing (finish_pass rm s) = False"
  "requests (finish_pass rm s) = requests s" "onLine (finish_pass rm s) = onLine s"
  "token (finish_pass rm s) = token s" "cachedAppointments (finish_pass rm s) = cachedAppointments s"
  "lastSuccessfulEndpoint (finish_pass rm s) = lastSuccessfulEndpoint s"
  "MOCK_DATA (finish_pass rm s) = MOCK_DATA s"
  by (simp_all add: finish_pass_def savePendingOperations_def Let_def)

lemma resume_single:
  assumes "single_pass s"
  shows "single_pass (resume env k s)"
proof (cases "length (floating s) \<le> k")
  case True
  with assms show ?thesis by (simp add: resume_def)
next
  case False
  with assms obtain p where fl: "floating s = [p]" and k: "k = 0" and ip: "isProcessing s"
    by (cases "floating s") (auto simp: single_pass_def)
  show ?thesis
  proof (cases "todo p")
    case Nil
    with fl k show ?thesis
      by (simp add: resume_def single_pass_def Let_def finish_pass_fields)
  next
    case (Cons operation rest)
    obtain r s' where sy: "syncAppointmentToDatabase env (op_id operation) (op_status operation) s = (r, s')"
      by (cases "syncAppointmentToDatabase env (op_id operation) (op_status operation) s")
    note fr = sync_frame [OF sy]
    from fl k Cons sy fr ip show ?thesis
      by (cases r) (auto simp: resume_def single_pass_def Let_def finish_pass_fields)
  qed
qed

lemma enqueue_fields:
  "floating (enqueue now i st s) = floating s" "isProcessing (enqueue now i st s) = isProcessing s"
  "requests (enqueue now i st s) = requests s" "onLine (enqueue now i st s) = onLine s"
  "token (enqueue now i st s) = token s" "cachedAppointments (enqueue now i st s) = cachedAppointments s"
  "lastSuccessfulEndpoint (enqueue now i st s) = lastSuccessfulEndpoint s"
  "MOCK_DATA (enqueue now i st s) = MOCK_DATA s"
  by (simp_all add: enqueue_def savePendingOperations_def Let_def)

lemma spawn_sync_fields:
  "pendingOperations (spawn_sync s) = pendingOperations s"
  "requests (spawn_sync s) = requests s" "onLine (spawn_sync s) = onLine s"
  "token (spawn_sync s) = token s" "cachedAppointments (spawn_sync s) = cachedAppointments s"
  "lastSuccessfulEndpoint (spawn_sync s) = lastSuccessfulEndpoint s"
  "MOCK_DATA (spawn_sync s) = MOCK_DATA s"
  "pendingAppointmentOperations (spawn_sync s) = pendingAppointmentOperations s"
  by (simp_all add: spawn_sync_def)

lemma enqueue_single: "single_pass s \<Longrightarrow> single_pass (enqueue now i st s)"
  by (simp add: single_pass_def enqueue_fields)

lemma addPendingOperation_single: "single_pass s \<Longrightarrow> single_pass (addPendingOperation now i st s)"
  by (simp add: addPendingOperation_def Let_def spawn_sync_single enqueue_single)

lemma mock_fallback_fields:
  assumes "mock_fallback now c st s = (m, s')"
  shows "floating s' = floating s" "isProcessing s' = isProcessing s"
    "pendingOperations s' = pendingOperations s" "requests s' = requests s"
    "token s' = token s" "lastSuccessfulEndpoint s' = lastSuccessfulEndpoint s"
    "onLine s' = onLine s" "pendingAppointmentOperations s' = pendingAppointmentOperations s"
  using assms by (auto simp: mock_fallback_def Let_def split: item.splits)

lemma try_cached_frame:
  assumes "try_cached env c st s = (r, s')"
  shows "pendingOperations s' = pendingOperations s \<and> isProcessing s' = isProcessing s
     \<and> MOCK_DATA s' = MOCK_DATA s \<and> token s' = token s
     \<and> cachedAppointments s' = cachedAppointments s
     \<and> pendingAppointmentOperations s' = pendingAppointmentOperations s
     \<and> onLine s' = onLine s \<and> floating s' = floating s
     \<and> lastSuccessfulEndpoint s' = lastSuccessfulEndpoint s"
  using assms by (auto simp: try_cached_def Let_def split: option.splits outcome.splits)

lemma rethrow_fields:
  assumes "rethrow e s = (e', s')"
  shows "floating s' = floating s" "isProcessing s' = isProcessing s"
    "pendingOperations s' = pendingOperations s" "requests s' = requests s"
    "cachedAppointments s' = cachedAppointments s"
  using assms by (induction e s rule: rethrow.induct) (auto split: if_splits)

lemma update_try_rejected:
  "token s = None \<or> token s = Some [] \<or> length (trim ident) < 10 \<Longrightarrow>
   \<exists>m. updateAppointmentStatus_try env now ident st s = (Inl (Error m), s)"
  by (auto simp: updateAppointmentStatus_try_def Let_def)

lemma update_try_accepted:
  assumes "token s \<noteq> None" "token s \<noteq> Some []" "10 \<le> length (trim ident)"
  shows "updateAppointmentStatus_try env now ident st s =
     (case try_cached env (trim ident) st s of
        (Some a, s1) \<Rightarrow> (Inr a, s1)
      | (None, s1) \<Rightarrow>
          (case try_endpoints env st (candidate_endpoints (API_URL env) (trim ident)) None s1 of
             (Inr a, s2) \<Rightarrow> (Inr a, s2)
           | (Inl lastError, s2) \<Rightarrow>
               (case mock_fallback now (trim ident) st (addPendingOperation now (trim ident) st s2) of
                  (mock, s4) \<Rightarrow> (Inr (Some mock), s4))))"
proof -
  from assms(3) have "trim ident \<noteq> []" by auto
  with assms show ?thesis
    by (auto simp: updateAppointmentStatus_try_def Let_def
             split: prod.splits sum.splits option.splits)
qed

lemma updateAppointmentStatus_try_single:
  assumes "single_pass s" and "updateAppointmentStatus_try env now ident st s = (r, s')"
  shows "single_pass s'"
proof (cases "token s = None \<or> token s = Some [] \<or> length (trim ident) < 10")
  case True
  from update_try_rejected [OF this, of env now st] assms show ?thesis by auto
next
  case False
  then have acc: "token s \<noteq> None" "token s \<noteq> Some []" "10 \<le> length (trim ident)" by auto
  note unf = update_try_accepted [OF acc, of env now st]
  obtain c s1 where tc: "try_cached env (trim ident) st s = (c, s1)"
    by (cases "try_cached env (trim ident) st s")
  from try_cached_frame [OF tc] assms(1) have sp1: "single_pass s1"
    by (simp add: single_pass_def)
  show ?thesis
  proof (cases c)
    case (Some a)
    with unf tc assms(2) sp1 show ?thesis by simp
  next
    case None
    obtain r2 s2 where te: "try_endpoints env st (candidate_endpoints (API_URL env) (trim ident)) None s1 = (r2, s2)"
      by (cases "try_endpoints env st (candidate_endpoints (API_URL env) (trim ident)) None s1")
    from try_endpoints_frame [OF te] sp1 have sp2: "single_pass s2"
      by (simp add: single_pass_def)
    show ?thesis
    proof (cases r2)
      case (Inr a)
      with unf tc None te assms(2) sp2 show ?thesis by simp
    next
      case (Inl le)
      obtain m s4 where mf: "mock_fallback now (trim ident) st (addPendingOperation now (trim ident) st s2) = (m, s4)"
        by (cases "mock_fallback now (trim ident) st (addPendingOperation now (trim ident) st s2)")
      from mock_fallback_fields(1,2) [OF mf] addPendingOperation_single [OF sp2]
      have "single_pass s4" by (simp add: single_pass_def)
      with unf tc None te Inl mf assms(2) show ?thesis by simp
    qed
  qed
qed

lemma updateAppointmentStatus_single:
  assumes "single_pass s"
  shows "single_pass (snd (updateAppointmentStatus env now ident st s))"
proof -
  obtain r s' where t: "updateAppointmentStatus_try env now ident st s = (r, s')"
    by (cases "updateAppointmentStatus_try env now ident st s")
  note sp = updateAppointmentStatus_try_single [OF assms t]
  show ?thesis
  proof (cases r)
    case (Inr a)
    with t sp show ?thesis by (simp add: updateAppointmentStatus_def)
  next
    case (Inl e)
    obtain e' s'' where rt: "rethrow e s' = (e', s'')" by (cases "rethrow e s'")
    from rethrow_fields(1,2) [OF rt] sp have "single_pass s''" by (simp add: single_pass_def)
    with t Inl rt show ?thesis by (simp add: updateAppointmentStatus_def)
  qed
qed

lemma getUserAppointments_single:
  assumes "single_pass s"
  shows "single_pass (snd (getUserAppointments env s))"
proof -
  have a: "single_pass (s\<lparr>requests := requests s @ [list_request env]\<rparr>)"
    using assms by (simp add: single_pass_def)
  have b: "\<And>d. single_pass (s\<lparr>requests := requests s @ [list_request env], cachedAppointments := Json d\<rparr>)"
    using assms by (simp add: single_pass_def)
  show ?thesis
    using a b spawn_sync_single [OF b]
    by (auto simp: getUserAppointments_def Let_def split: outcome.splits item.splits)
qed

lemma fire_single: "single_pass s \<Longrightarrow> single_pass (fire env ev s)"
proof (cases ev)
qed (simp_all add: addPendingOperation_single updateAppointmentStatus_single
      getUserAppointments_single spawn_sync_single resume_single handleCancelAppointment_def,
     simp_all add: single_pass_def setSuccessfulEndpoint_def)

lemma run_single: "single_pass s \<Longrightarrow> single_pass (run env evs s)"
  unfolding run_def by (induction evs arbitrary: s) (simp_all add: fire_single)

lemma module_start_single: "single_pass (module_start tok cache stored online)"
  by (simp add: module_start_def loadPendingOperations_def single_pass_def split: item.splits)

lemma guard_noop:
  "isProcessing s \<Longrightarrow> syncPendingOperations env s = s \<and> spawn_sync s = s"
  by (simp add: syncPendingOperations_def spawn_sync_def)

subsection \<open>The queue along a run\<close>

text \<open>\<open>addPendingOperation\<close> replaces or appends one entry; every other event leaves the
  queue as it is or filters it.\<close>

lemma findIndex_None: "findIndex P xs = None \<longleftrightarrow> (\<forall>x\<in>set xs. \<not> P x)"
  by (induction xs) auto

lemma findIndex_Some:
  "findIndex P xs = Some i \<Longrightarrow> i < length xs \<and> P (xs ! i)"
  by (induction xs arbitrary: i) (auto split: if_splits)

lemma run_snoc: "run env (evs @ [ev]) s = fire env ev (run env evs s)"
  by (simp add: run_def)

lemma last_intent_snoc:
  "last_intent (evs @ [ev]) i =
     (case ev of
        AddPending now j st \<Rightarrow> if j = i then Some (st, now) else last_intent evs i
      | _ \<Rightarrow> last_intent evs i)"
  by (induction evs) (auto split: option.splits event.splits)

lemma enqueue_queue_cases:
  assumes "one_entry_per_id (pendingOperations s)"
  shows "one_entry_per_id (pendingOperations (enqueue now i st s))"
    and "\<lparr>op_id = i, op_status = st, timestamp = now\<rparr> \<in> set (pendingOperations (enqueue now i st s))"
    and "\<forall>op\<in>set (pendingOperations (enqueue now i st s)).
           op = \<lparr>op_id = i, op_status = st, timestamp = now\<rparr>
           \<or> (op \<in> set (pendingOperations s) \<and> op_id op \<noteq> i)"
proof -
  let ?q = "pendingOperations s"
  let ?new = "\<lparr>op_id = i, op_status = st, timestamp = now\<rparr>"
  show "one_entry_per_id (pendingOperations (enqueue now i st s))"
    and "?new \<in> set (pendingOperations (enqueue now i st s))"
    and "\<forall>op\<in>set (pendingOperations (enqueue now i st s)).
           op = ?new \<or> (op \<in> set ?q \<and> op_id op \<noteq> i)"
  proof (atomize (full), cases "findIndex (\<lambda>op. op_id op = i) ?q")
    case None
    then have no: "\<forall>x\<in>set ?q. op_id x \<noteq> i" by (simp add: findIndex_None)
    have q': "pendingOperations (enqueue now i st s) = ?q @ [?new]"
      using None by (simp add: enqueue_def savePendingOperations_def Let_def)
    from assms no show "one_entry_per_id (pendingOperations (enqueue now i st s)) \<and>
      ?new \<in> set (pendingOperations (enqueue now i st s)) \<and>
      (\<forall>op\<in>set (pendingOperations (enqueue now i st s)). op = ?new \<or> (op \<in> set ?q \<and> op_id op \<noteq> i))"
      unfolding q' by (auto simp: one_entry_per_id_def)
  next
    case (Some k)
    from findIndex_Some [OF Some] have k: "k < length ?q" and idk: "op_id (?q ! k) = i" by auto
    have q': "pendingOperations (enqueue now i st s) = ?q[k := ?new]"
      using Some by (simp add: enqueue_def savePendingOperations_def Let_def)
    have m: "map op_id (?q[k := ?new]) = map op_id ?q"
      using k idk by (simp add: map_update list_update_same_conv)
    have others: "op \<in> set ?q \<and> op_id op \<noteq> i" if "op \<in> set (?q[k := ?new])" "op \<noteq> ?new" for op
    proof -
      from that obtain j where j: "j < length ?q" "op = ?q[k := ?new] ! j"
        by (auto simp: in_set_conv_nth)
      with that(2) k have jk: "j \<noteq> k" by auto
      with j have opj: "op = ?q ! j" by simp
      from assms have "distinct (map op_id ?q)" by (simp add: one_entry_per_id_def)
      with j(1) k jk have "map op_id ?q ! j \<noteq> map op_id ?q ! k"
        by (auto simp: distinct_conv_nth)
      with j(1) k idk opj that(1) show ?thesis by (auto dest: set_update_subset_insert [THEN subsetD])
    qed
    from assms k others show "one_entry_per_id (pendingOperations (enqueue now i st s)) \<and>
      ?new \<in> set (pendingOperations (enqueue now i st s)) \<and>
      (\<forall>op\<in>set (pendingOperations (enqueue now i st s)). op = ?new \<or> (op \<in> set ?q \<and> op_id op \<noteq> i))"
      unfolding q' by (auto simp: one_entry_per_id_def m set_update_memI)
  qed
qed

lemma addPendingOperation_queue:
  "pendingOperations (addPendingOperation now i st s) = pendingOperations (enqueue now i st s)"
  by (simp add: addPendingOperation_def Let_def spawn_sync_fields)

lemma finish_pass_queue:
  "\<exists>P. pendingOperations (finish_pass rm s) = filter P (pendingOperations s)"
proof (cases "length rm > 0")
  case True
  then show ?thesis by (auto simp: finish_pass_def savePendingOperations_def Let_def)
next
  case False
  then have "pendingOperations (finish_pass rm s) = filter (\<lambda>_. True) (pendingOperations s)"
    by (simp add: finish_pass_def)
  then show ?thesis by blast
qed

lemma resume_queue:
  "\<exists>P. pendingOperations (resume env k s) = filter P (pendingOperations s)"
proof (cases "length (floating s) \<le> k")
  case True
  then have "pendingOperations (resume env k s) = filter (\<lambda>_. True) (pendingOperations s)"
    by (simp add: resume_def)
  then show ?thesis by blast
next
  case False
  let ?p = "floating s ! k"
  show ?thesis
  proof (cases "todo ?p")
    case Nil
    with False finish_pass_queue [of "operationsToRemove ?p" "s\<lparr>floating := take k (floating s) @ drop (Suc k) (floating s)\<rparr>"]
    show ?thesis by (simp add: resume_def Let_def)
  next
    case (Cons operation rest)
    obtain r s' where sy: "syncAppointmentToDatabase env (op_id operation) (op_status operation) s = (r, s')"
      by (cases "syncAppointmentToDatabase env (op_id operation) (op_status operation) s")
    from sync_frame [OF sy] have q: "pendingOperations s' = pendingOperations s" by simp
    have fin: "\<exists>P. pendingOperations (finish_pass rm (s'\<lparr>floating := fl\<rparr>)) = filter P (pendingOperations s)" for rm fl
      using finish_pass_queue [of rm "s'\<lparr>floating := fl\<rparr>"] q by simp
    have same: "\<exists>P. pendingOperations (s'\<lparr>floating := fl\<rparr>) = filter P (pendingOperations s)" for fl
      using q by (intro exI [of _ "\<lambda>_. True"]) simp
    from False Cons sy fin same show ?thesis
      by (cases r) (simp_all add: resume_def Let_def)
  qed
qed

lemma getUserAppointments_queue:
  "pendingOperations (snd (getUserAppointments env s)) = pendingOperations s"
  by (simp add: getUserAppointments_def Let_def spawn_sync_fields split: outcome.splits item.splits)

lemma fire_other_queue:
  assumes "\<not> calls_update ev" "\<And>now i st. ev \<noteq> AddPending now i st"
  shows "\<exists>P. pendingOperations (fire env ev s) = filter P (pendingOperations s)"
proof -
  have same: "pendingOperations s' = pendingOperations s \<Longrightarrow>
     \<exists>P. pendingOperations s' = filter P (pendingOperations s)" for s'
    by (intro exI [of _ "\<lambda>_. True"]) simp
  show ?thesis
  proof (cases ev)
    case (AddPending now i st)
    with assms(2) show ?thesis by blast
  next
    case (UpdateStatus now i st)
    with assms(1) show ?thesis by simp
  next
    case (CancelClicked now i)
    with assms(1) show ?thesis by simp
  qed (simp_all add: resume_queue same getUserAppointments_queue spawn_sync_fields
          setSuccessfulEndpoint_def)
qed

lemma enqueue_queue_cong:
  "pendingOperations s2 = pendingOperations s \<Longrightarrow>
   pendingOperations (enqueue now i st s2) = pendingOperations (enqueue now i st s)"
  by (simp add: enqueue_def savePendingOperations_def Let_def)

lemma updateAppointmentStatus_try_queue:
  assumes "updateAppointmentStatus_try env now ident st s = (r, s')"
  shows "pendingOperations s' = pendingOperations s
     \<or> pendingOperations s' = pendingOperations (enqueue now (trim ident) st s)"
proof (cases "token s = None \<or> token s = Some [] \<or> length (trim ident) < 10")
  case True
  from update_try_rejected [OF this, of env now st] assms show ?thesis by auto
next
  case False
  then have acc: "token s \<noteq> None" "token s \<noteq> Some []" "10 \<le> length (trim ident)" by auto
  note unf = update_try_accepted [OF acc, of env now st]
  obtain c s1 where tc: "try_cached env (trim ident) st s = (c, s1)"
    by (cases "try_cached env (trim ident) st s")
  from try_cached_frame [OF tc] have q1: "pendingOperations s1 = pendingOperations s" by simp
  show ?thesis
  proof (cases c)
    case (Some a)
    with unf tc assms q1 show ?thesis by simp
  next
    case None
    obtain r2 s2 where te: "try_endpoints env st (candidate_endpoints (API_URL env) (trim ident)) None s1 = (r2, s2)"
      by (cases "try_endpoints env st (candidate_endpoints (API_URL env) (trim ident)) None s1")
    from try_endpoints_frame [OF te] q1 have q2: "pendingOperations s2 = pendingOperations s" by simp
    show ?thesis
    proof (cases r2)
      case (Inr a)
      with unf tc None te assms q2 show ?thesis by simp
    next
      case (Inl le)
      obtain m s4 where mf: "mock_fallback now (trim ident) st (addPendingOperation now (trim ident) st s2) = (m, s4)"
        by (cases "mock_fallback now (trim ident) st (addPendingOperation now (trim ident) st s2)")
      from mock_fallback_fields(3) [OF mf]
      have "pendingOperations s4 = pendingOperations (enqueue now (trim ident) st s)"
        by (simp add: addPendingOperation_queue enqueue_queue_cong [OF q2])
      with unf tc None te Inl mf assms show ?thesis by simp
    qed
  qed
qed

lemma updateAppointmentStatus_queue:
  "pendingOperations (snd (updateAppointmentStatus env now ident st s)) = pendingOperations s
   \<or> pendingOperations (snd (updateAppointmentStatus env now ident st s))
       = pendingOperations (enqueue now (trim ident) st s)"
proof -
  obtain r s' where t: "updateAppointmentStatus_try env now ident st s = (r, s')"
    by (cases "updateAppointmentStatus_try env now ident st s")
  note q = updateAppointmentStatus_try_queue [OF t]
  show ?thesis
  proof (cases r)
    case (Inr a)
    with t q show ?thesis by (simp add: updateAppointmentStatus_def)
  next
    case (Inl e)
    obtain e' s'' where rt: "rethrow e s' = (e', s'')" by (cases "rethrow e s'")
    from rethrow_fields(3) [OF rt] q t Inl rt show ?thesis
      by (simp add: updateAppointmentStatus_def)
  qed
qed

lemma one_entry_filter: "one_entry_per_id q \<Longrightarrow> one_entry_per_id (filter P q)"
  by (simp add: one_entry_per_id_def distinct_map_filter)

lemma fire_one_entry:
  assumes "one_entry_per_id (pendingOperations s)"
  shows "one_entry_per_id (pendingOperations (fire env ev s))"
proof (cases ev)
  case (AddPending now i st)
  with enqueue_queue_cases(1) [OF assms] show ?thesis by (simp add: addPendingOperation_queue)
next
  case (UpdateStatus now i st)
  with updateAppointmentStatus_queue [of env now i st s] enqueue_queue_cases(1) [OF assms] assms
  show ?thesis by auto
next
  case GetAppointments
  with assms show ?thesis by (simp add: getUserAppointments_queue)
next
  case SyncTrigger
  with assms show ?thesis by (simp add: spawn_sync_fields)
next
  case (Resume k)
  with resume_queue [of env k s] one_entry_filter [OF assms] show ?thesis by auto
next
  case (Connectivity b)
  with assms show ?thesis by simp
next
  case (StoreToken t)
  with assms show ?thesis by simp
next
  case (SetEndpoint u m)
  with assms show ?thesis by (simp add: setSuccessfulEndpoint_def)
next
  case (CancelClicked now i)
  with updateAppointmentStatus_queue [of env now i Cancelled s] enqueue_queue_cases(1) [OF assms] assms
  show ?thesis by (auto simp: handleCancelAppointment_def)
qed

lemma run_one_entry:
  "one_entry_per_id (pendingOperations s) \<Longrightarrow> one_entry_per_id (pendingOperations (run env evs s))"
  unfolding run_def by (induction evs arbitrary: s) (simp_all add: fire_one_entry)

lemma run_last_intent:
  assumes "one_entry_per_id (pendingOperations s)" and "\<forall>ev\<in>set evs. \<not> calls_update ev"
  shows "holds_last_intent evs (pendingOperations (run env evs s))"
  using assms(2)
proof (induction evs rule: rev_induct)
  case Nil
  show ?case by (simp add: holds_last_intent_def)
next
  case (snoc ev evs)
  let ?s = "run env evs s"
  from snoc have IH: "holds_last_intent evs (pendingOperations ?s)" by simp
  from snoc.prems have nu: "\<not> calls_update ev" by simp
  have inv: "one_entry_per_id (pendingOperations ?s)" by (rule run_one_entry [OF assms(1)])
  show ?case
  proof (cases "\<exists>now i st. ev = AddPending now i st")
    case True
    then obtain now i st where ev: "ev = AddPending now i st" by blast
    have "case last_intent (evs @ [ev]) (op_id op) of
            None \<Rightarrow> True
          | Some (st', t) \<Rightarrow> op_status op = st' \<and> timestamp op = t"
      if "op \<in> set (pendingOperations (enqueue now i st ?s))" for op
    proof -
      from enqueue_queue_cases(3) [OF inv, of now i st] that
      consider "op = \<lparr>op_id = i, op_status = st, timestamp = now\<rparr>"
        | "op \<in> set (pendingOperations ?s)" "op_id op \<noteq> i"
        by blast
      then show ?thesis
      proof cases
        case 1
        then show ?thesis by (simp add: last_intent_snoc ev)
      next
        case 2
        with IH show ?thesis
          by (auto simp: holds_last_intent_def last_intent_snoc ev)
      qed
    qed
    then show ?thesis
      unfolding run_snoc ev
      by (simp add: holds_last_intent_def addPendingOperation_queue)
  next
    case False
    then have na: "\<And>now i st. ev \<noteq> AddPending now i st" by blast
    from fire_other_queue [OF nu na, of env ?s]
    obtain P where P: "pendingOperations (fire env ev ?s) = filter P (pendingOperations ?s)" by blast
    from na have li: "last_intent (evs @ [ev]) j = last_intent evs j" for j
      by (cases ev) (auto simp: last_intent_snoc)
    from IH show ?thesis
      unfolding run_snoc P by (auto simp: holds_last_intent_def li)
  qed
qed

subsection \<open>The drain loop\<close>

text \<open>The loop collects the ids of the operations that sync and stops at the first that
  does not; with one entry per id, removing those ids removes those operations.\<close>

lemma drain_loop_stops:
  assumes "sync_all env pre s = Some s1"
    and "syncAppointmentToDatabase env (op_id failed) (op_status failed) s1 = (Inl e, s2)"
  shows "drain_loop env (pre @ failed # rest) rm s = (rm @ map op_id pre, s2)"
  using assms(1)
proof (induction pre arbitrary: s rm)
  case Nil
  with assms(2) show ?case by simp
next
  case (Cons operation pre)
  obtain r s' where sy: "syncAppointmentToDatabase env (op_id operation) (op_status operation) s = (r, s')"
    by (cases "syncAppointmentToDatabase env (op_id operation) (op_status operation) s")
  with Cons.prems obtain a where r: "r = Inr a" and rest: "sync_all env pre s' = Some s1"
    by (cases r) auto
  from Cons.IH [OF rest, of "rm @ [op_id operation]"] sy r show ?case by simp
qed

lemma sync_all_frame:
  assumes "sync_all env ops s = Some s1"
  shows "pendingOperations s1 = pendingOperations s \<and> isProcessing s1 = isProcessing s
     \<and> floating s1 = floating s \<and> onLine s1 = onLine s"
  using assms
proof (induction ops arbitrary: s)
  case Nil
  then show ?case by simp
next
  case (Cons operation ops)
  obtain r s' where sy: "syncAppointmentToDatabase env (op_id operation) (op_status operation) s = (r, s')"
    by (cases "syncAppointmentToDatabase env (op_id operation) (op_status operation) s")
  with Cons.prems obtain a where r: "r = Inr a" and rest: "sync_all env ops s' = Some s1"
    by (cases r) auto
  from Cons.IH [OF rest] sync_frame [OF sy] show ?case by simp
qed

lemma filter_synced:
  assumes d: "distinct (map op_id q)" and srt: "sort_key timestamp q = pre @ failed # later"
  shows "filter (\<lambda>op. op_id op \<notin> set (map op_id pre)) q = filter (\<lambda>op. op \<notin> set pre) q"
    and "length (filter (\<lambda>op. op \<notin> set pre) q) = length q - length pre"
    and "failed \<in> set (filter (\<lambda>op. op \<notin> set pre) q)"
    and "set later \<subseteq> set (filter (\<lambda>op. op \<notin> set pre) q)"
proof -
  have st: "set q = set pre \<union> set (failed # later)"
    using set_sort [of timestamp q] srt by (metis set_append)
  from d have dq: "distinct q" by (simp add: distinct_map)
  from d have inj: "inj_on op_id (set q)" by (simp add: distinct_map)
  from dq have "distinct (sort_key timestamp q)" by simp
  with srt have dpre: "distinct pre" and disj: "set pre \<inter> set (failed # later) = {}"
    by auto
  have iff: "op_id op \<in> op_id ` set pre \<longleftrightarrow> op \<in> set pre" if "op \<in> set q" for op
    using inj that st by (auto dest: inj_onD)
  show e: "filter (\<lambda>op. op_id op \<notin> set (map op_id pre)) q = filter (\<lambda>op. op \<notin> set pre) q"
    by (rule filter_cong) (simp_all add: iff)
  have "{x. x \<notin> set pre} \<inter> set q = set q - set pre" by auto
  with dq have "length (filter (\<lambda>op. op \<notin> set pre) q) = card (set q - set pre)"
    by (simp add: distinct_length_filter)
  also have "\<dots> = card (set q) - card (set pre)"
    using st by (intro card_Diff_subset) auto
  also have "\<dots> = length q - length pre"
    using dq dpre by (simp add: distinct_card)
  finally show "length (filter (\<lambda>op. op \<notin> set pre) q) = length q - length pre" .
  from st disj show "failed \<in> set (filter (\<lambda>op. op \<notin> set pre) q)" by auto
  from st disj show "set later \<subseteq> set (filter (\<lambda>op. op \<notin> set pre) q)" by auto
qed

subsection \<open>The concrete situations\<close>

text \<open>The fields of the example states, and the example identifiers trimmed.\<close>

lemma fresh_fields:
  "token fresh = Some (js ''jwt'')" "lastSuccessfulEndpoint fresh = None"
  "requests fresh = []" "pendingOperations fresh = []"
  "onLine fresh = True" "isProcessing fresh = False" "floating fresh = []"
  by (simp_all add: fresh_def module_start_def loadPendingOperations_def)

lemma three_queued_fields:
  "isProcessing three_queued = False" "onLine three_queued = True"
  "pendingOperations three_queued = [op_a, op_b, op_c]" "requests three_queued = []"
  by (simp_all add: three_queued_def fresh_def module_start_def loadPendingOperations_def)

lemma signed_in_fields:
  "token signed_in = Some (js ''jwt'')" "lastSuccessfulEndpoint signed_in = None"
  "requests signed_in = []" "pendingOperations signed_in = []"
  "cachedAppointments signed_in = Json [appt_x, appt_y]" "onLine signed_in = True"
  "isProcessing signed_in = False" "MOCK_DATA signed_in = Map.empty" "floating signed_in = []"
  by (simp_all add: signed_in_def module_start_def loadPendingOperations_def)

lemma trim_padded: "trim padded_x_id = x_id" "length x_id = 24" "trim x_id = x_id"
  by (simp_all add: trim_def  x_id_def padded_x_id_def)

lemma all_fail_always:
  "(\<And>h r. \<not> answered (axios env h r)) \<Longrightarrow> all_fail env h rs"
  by (induction rs arbitrary: h) simp_all

subsection \<open>When no endpoint answers\<close>

text \<open>The scan of a list of candidates, and the call as a whole, when every request is
  rejected: the call ends in the fall-back code.\<close>

lemma try_endpoints_all_fail:
  assumes "all_fail env (requests s) (map (\<lambda>e. endpoint_request e st) es)"
  shows "\<exists>le'. try_endpoints env st es le s
           = (Inl le', s\<lparr>requests := requests s @ map (\<lambda>e. endpoint_request e st) es\<rparr>)"
  using assms
proof (induction es arbitrary: le s)
  case Nil
  then show ?case by simp
next
  case (Cons e es)
  from Cons.prems obtain f where f: "axios env (requests s) (endpoint_request e st) = Failure f"
    by (cases "axios env (requests s) (endpoint_request e st)") auto
  let ?s1 = "s\<lparr>requests := requests s @ [endpoint_request e st]\<rparr>"
  from Cons.prems have "all_fail env (requests ?s1) (map (\<lambda>e. endpoint_request e st) es)" by simp
  from Cons.IH [OF this, of "Some f"] f show ?case by (simp add: Let_def)
qed

lemma try_endpoints_first_success:
  assumes "all_fail env (requests s) (map (\<lambda>e. endpoint_request e st) pre)"
    and "axios env (requests s @ map (\<lambda>e. endpoint_request e st) pre) (endpoint_request c st) = Success a"
  shows "try_endpoints env st (pre @ c # post) le s
           = (Inr a, s\<lparr>requests := requests s @ map (\<lambda>e. endpoint_request e st) pre @ [endpoint_request c st],
                       lastSuccessfulEndpoint := Some c\<rparr>)"
  using assms
proof (induction pre arbitrary: le s)
  case Nil
  then show ?case by (simp add: Let_def)
next
  case (Cons e pre)
  from Cons.prems(1) obtain f where f: "axios env (requests s) (endpoint_request e st) = Failure f"
    by (cases "axios env (requests s) (endpoint_request e st)") auto
  let ?s1 = "s\<lparr>requests := requests s @ [endpoint_request e st]\<rparr>"
  from Cons.prems have a: "all_fail env (requests ?s1) (map (\<lambda>e. endpoint_request e st) pre)"
    and b: "axios env (requests ?s1 @ map (\<lambda>e. endpoint_request e st) pre) (endpoint_request c st) = Success a"
    by simp_all
  from Cons.IH [OF a b, of "Some f"] f show ?case by (simp add: Let_def)
qed

lemma try_cached_all_fail:
  assumes "all_fail env (requests s) (attempts env s c st)"
  shows "try_cached env c st s
           = (None, s\<lparr>requests := requests s @
                 (case lastSuccessfulEndpoint s of None \<Rightarrow> [] | Some e \<Rightarrow> [cached_request e c st])\<rparr>)"
proof (cases "lastSuccessfulEndpoint s")
  case None
  then show ?thesis by (simp add: try_cached_def)
next
  case (Some e)
  with assms obtain f where "axios env (requests s) (cached_request e c st) = Failure f"
    by (cases "axios env (requests s) (cached_request e c st)") (auto simp: attempts_def)
  with Some show ?thesis by (simp add: try_cached_def Let_def)
qed

lemma enqueue_member:
  "\<lparr>op_id = i, op_status = st, timestamp = now\<rparr> \<in> set (pendingOperations (enqueue now i st s))"
proof (cases "findIndex (\<lambda>op. op_id op = i) (pendingOperations s)")
  case None
  then show ?thesis by (simp add: enqueue_def savePendingOperations_def Let_def)
next
  case (Some k)
  from findIndex_Some [OF Some] Some show ?thesis
    by (simp add: enqueue_def savePendingOperations_def Let_def set_update_memI)
qed

lemma update_try_all_fail:
  assumes "token s \<noteq> None" "token s \<noteq> Some []" "10 \<le> length (trim ident)"
    and "all_fail env (requests s) (attempts env s (trim ident) st)"
  shows "updateAppointmentStatus env now ident st s =
     (case mock_fallback now (trim ident) st
             (addPendingOperation now (trim ident) st
                (s\<lparr>requests := requests s @ attempts env s (trim ident) st\<rparr>)) of
        (mock, s4) \<Rightarrow> (Inr (Some mock), s4))"
proof -
  let ?c = "trim ident"
  let ?first = "case lastSuccessfulEndpoint s of None \<Rightarrow> [] | Some e \<Rightarrow> [cached_request e ?c st]"
  let ?s1 = "s\<lparr>requests := requests s @ ?first\<rparr>"
  let ?cands = "candidate_endpoints (API_URL env) ?c"
  note tc = try_cached_all_fail [OF assms(4)]
  have "all_fail env (requests ?s1) (map (\<lambda>e. endpoint_request e st) ?cands)"
    using assms(4) by (cases "lastSuccessfulEndpoint s") (simp_all add: attempts_def)
  from try_endpoints_all_fail [OF this, of None]
  obtain le' where te: "try_endpoints env st ?cands None ?s1
      = (Inl le', ?s1\<lparr>requests := requests ?s1 @ map (\<lambda>e. endpoint_request e st) ?cands\<rparr>)"
    by blast
  have te2: "try_endpoints env st ?cands None ?s1
      = (Inl le', s\<lparr>requests := requests s @ attempts env s ?c st\<rparr>)"
    using te by (simp add: attempts_def)
  show ?thesis
    unfolding updateAppointmentStatus_def update_try_accepted [OF assms(1-3)] tc
    by (simp add: te2 split: prod.splits)
qed

lemma fallback_result:
  assumes "mock_fallback now c st s = (mock, s')"
  shows "appt_status mock = st" and "updatedAt mock = now"
    and "cachedAppointments s = Json appointments \<Longrightarrow>
         cachedAppointments s' = Json (map (\<lambda>a. if appt_id a = c then mock else a) appointments)"
    and "cachedAppointments s = Missing \<Longrightarrow> cachedAppointments s' = Missing"
    and "cachedAppointments s = Garbled \<Longrightarrow> cachedAppointments s' = Garbled"
    and "MOCK_DATA s' c = Some mock"
  using assms by (auto simp: mock_fallback_def Let_def split: item.splits)

subsection \<open>What the \<open>try\<close> block can throw\<close>

text \<open>Only the two \<open>new Error\<close> of the guards leave the \<open>try\<close> block, so the \<open>catch\<close> block
  never sees a rejected request and the token is never removed.\<close>

lemma update_try_throws_plain:
  assumes "updateAppointmentStatus_try env now ident st s = (Inl e, s')"
  shows "\<exists>m. e = Error m"
proof (cases "token s = None \<or> token s = Some [] \<or> length (trim ident) < 10")
  case True
  from update_try_rejected [OF this, of env now st] assms show ?thesis by auto
next
  case False
  then have acc: "token s \<noteq> None" "token s \<noteq> Some []" "10 \<le> length (trim ident)" by auto
  from assms show ?thesis
    unfolding update_try_accepted [OF acc]
    by (auto split: prod.splits option.splits sum.splits)
qed

lemma updateAppointmentStatus_try_token:
  assumes "updateAppointmentStatus_try env now ident st s = (r, s')"
  shows "token s' = token s"
proof (cases "token s = None \<or> token s = Some [] \<or> length (trim ident) < 10")
  case True
  from update_try_rejected [OF this, of env now st] assms show ?thesis by auto
next
  case False
  then have acc: "token s \<noteq> None" "token s \<noteq> Some []" "10 \<le> length (trim ident)" by auto
  have ap: "token (addPendingOperation now' i st' s0) = token s0" for now' i st' s0
    by (simp add: addPendingOperation_def Let_def spawn_sync_fields enqueue_fields)
  from assms show ?thesis
    unfolding update_try_accepted [OF acc]
    by (auto split: prod.splits option.splits sum.splits
        dest!: try_cached_frame try_endpoints_frame mock_fallback_fields(5) simp: ap)
qed

lemma update_keeps_token:
  "token (snd (updateAppointmentStatus env now ident st s)) = token s"
proof -
  obtain r s' where t: "updateAppointmentStatus_try env now ident st s = (r, s')"
    by (cases "updateAppointmentStatus_try env now ident st s")
  note tk = updateAppointmentStatus_try_token [OF t]
  show ?thesis
  proof (cases r)
    case (Inr a)
    with t tk show ?thesis by (simp add: updateAppointmentStatus_def)
  next
    case (Inl e)
    with update_try_throws_plain t obtain m where "e = Error m" by blast
    with t tk Inl show ?thesis by (simp add: updateAppointmentStatus_def)
  qed
qed

lemma appt_ids: "appt_id appt_x = x_id" "appt_id appt_y \<noteq> x_id" "appt_status appt_x = Confirmed"
  by (simp_all add: appt_x_def appt_y_def x_id_def)

lemma offline_cancel_evaluated:
  assumes "\<And>h r. \<not> answered (axios env h r)"
  shows "fst (updateAppointmentStatus env 7 x_id Cancelled signed_in)
           = Inr (Some (appt_x\<lparr>appt_status := Cancelled, updatedAt := 7\<rparr>))"
    and "pendingOperations (snd (updateAppointmentStatus env 7 x_id Cancelled signed_in))
           = [\<lparr>op_id = x_id, op_status = Cancelled, timestamp = 7\<rparr>]"
    and "cachedAppointments (snd (updateAppointmentStatus env 7 x_id Cancelled signed_in))
           = Json [appt_x\<lparr>appt_status := Cancelled, updatedAt := 7\<rparr>, appt_y]"
    and "isProcessing (snd (updateAppointmentStatus env 7 x_id Cancelled signed_in))"
    and "lastSuccessfulEndpoint (snd (updateAppointmentStatus env 7 x_id Cancelled signed_in)) = None"
proof -
  have h3: "10 \<le> length (trim x_id)" by (simp add: trim_padded)
  have h4: "all_fail env (requests signed_in) (attempts env signed_in (trim x_id) Cancelled)"
    by (rule all_fail_always) (rule assms)
  have tk: "token signed_in \<noteq> None" "token signed_in \<noteq> Some []"
    by (simp_all add: signed_in_fields)
  note u = update_try_all_fail [OF tk h3 h4, of 7, unfolded trim_padded]
  show "fst (updateAppointmentStatus env 7 x_id Cancelled signed_in)
           = Inr (Some (appt_x\<lparr>appt_status := Cancelled, updatedAt := 7\<rparr>))"
    and "pendingOperations (snd (updateAppointmentStatus env 7 x_id Cancelled signed_in))
           = [\<lparr>op_id = x_id, op_status = Cancelled, timestamp = 7\<rparr>]"
    and "cachedAppointments (snd (updateAppointmentStatus env 7 x_id Cancelled signed_in))
           = Json [appt_x\<lparr>appt_status := Cancelled, updatedAt := 7\<rparr>, appt_y]"
    and "isProcessing (snd (updateAppointmentStatus env 7 x_id Cancelled signed_in))"
    and "lastSuccessfulEndpoint (snd (updateAppointmentStatus env 7 x_id Cancelled signed_in)) = None"
    unfolding u
    by (simp_all add: mock_fallback_def addPendingOperation_def enqueue_def spawn_sync_def
        savePendingOperations_def Let_def signed_in_fields appt_ids)
qed

subsection \<open>What the listing returns\<close>

text \<open>The result and the cache after \<open>getUserAppointments\<close>.\<close>

lemma getUserAppointments_result:
  "fst (getUserAppointments env s) =
     (case axios_get env (requests s) (list_request env) of
        Success data \<Rightarrow> data
      | Failure f \<Rightarrow>
          (case cachedAppointments s of
             Json appointments \<Rightarrow> appointments | Missing \<Rightarrow> [] | Garbled \<Rightarrow> []))"
  by (simp add: getUserAppointments_def Let_def split: outcome.splits item.splits)

lemma getUserAppointments_cache:
  "cachedAppointments (snd (getUserAppointments env s)) =
     (case axios_get env (requests s) (list_request env) of
        Success data \<Rightarrow> Json data
      | Failure f \<Rightarrow> cachedAppointments s)"
  by (simp add: getUserAppointments_def Let_def spawn_sync_fields split: outcome.splits item.splits)

subsection \<open>The remembered endpoint and the scan\<close>

text \<open>The three ways a call with a remembered endpoint can go, and what \<open>replace_id\<close>
  makes of some addresses.\<close>

lemma try_endpoints_requests:
  "try_endpoints env st es le s = (r, s') \<Longrightarrow>
   \<exists>more. requests s' = requests s @ more
     \<and> (es \<noteq> [] \<longrightarrow> more \<noteq> [] \<and> hd more = endpoint_request (hd es) st)"
proof (induction es arbitrary: le s)
  case Nil
  then show ?case by simp
next
  case (Cons e es)
  show ?case
  proof (cases "axios env (requests s) (endpoint_request e st)")
    case (Success a)
    with Cons.prems show ?thesis by (auto simp: Let_def)
  next
    case (Failure f)
    with Cons.prems have
      "try_endpoints env st es (Some f) (s\<lparr>requests := requests s @ [endpoint_request e st]\<rparr>) = (r, s')"
      by (simp add: Let_def)
    from Cons.IH [OF this] show ?thesis by auto
  qed
qed

lemma addPendingOperation_fields:
  "requests (addPendingOperation now i st s) = requests s"
  "lastSuccessfulEndpoint (addPendingOperation now i st s) = lastSuccessfulEndpoint s"
  "token (addPendingOperation now i st s) = token s"
  "cachedAppointments (addPendingOperation now i st s) = cachedAppointments s"
  "MOCK_DATA (addPendingOperation now i st s) = MOCK_DATA s"
  by (simp_all add: addPendingOperation_def Let_def spawn_sync_fields enqueue_fields)

lemma try_cached_remembered:
  assumes "lastSuccessfulEndpoint s = Some e"
  shows "try_cached env c st s =
     ((case axios env (requests s) (cached_request e c st) of
         Success a \<Rightarrow> Some a | Failure f \<Rightarrow> None),
      s\<lparr>requests := requests s @ [cached_request e c st]\<rparr>)"
  using assms by (simp add: try_cached_def Let_def split: outcome.splits)

lemma update_requests_prefix:
  assumes "token s \<noteq> None" "token s \<noteq> Some []" "10 \<le> length (trim ident)"
    and "lastSuccessfulEndpoint s = Some e"
  shows "\<exists>more. requests (snd (updateAppointmentStatus env now ident st s))
           = requests s @ cached_request e (trim ident) st # more"
proof -
  let ?c = "trim ident"
  let ?creq = "cached_request e ?c st"
  let ?s1 = "s\<lparr>requests := requests s @ [?creq]\<rparr>"
  note tc = try_cached_remembered [OF assms(4), of env ?c st]
  show ?thesis
  proof (cases "axios env (requests s) ?creq")
    case (Success a)
    then show ?thesis
      unfolding updateAppointmentStatus_def update_try_accepted [OF assms(1-3)] tc by simp
  next
    case (Failure f)
    obtain r2 s2 where te: "try_endpoints env st (candidate_endpoints (API_URL env) ?c) None ?s1 = (r2, s2)"
      by (cases "try_endpoints env st (candidate_endpoints (API_URL env) ?c) None ?s1")
    from try_endpoints_requests [OF te] obtain more where
      m: "requests s2 = requests s @ ?creq # more" by auto
    show ?thesis
    proof (cases r2)
      case (Inr a)
      with Failure te m show ?thesis
        unfolding updateAppointmentStatus_def update_try_accepted [OF assms(1-3)] tc by simp
    next
      case (Inl le)
      obtain mock s4 where mf: "mock_fallback now ?c st (addPendingOperation now ?c st s2) = (mock, s4)"
        by (cases "mock_fallback now ?c st (addPendingOperation now ?c st s2)")
      from mock_fallback_fields(4) [OF mf] m have "requests s4 = requests s @ ?creq # more"
        by (simp add: addPendingOperation_fields)
      with Failure te Inl mf show ?thesis
        unfolding updateAppointmentStatus_def update_try_accepted [OF assms(1-3)] tc by simp
    qed
  qed
qed

lemma update_remembered_answers:
  assumes "token s \<noteq> None" "token s \<noteq> Some []" "10 \<le> length (trim ident)"
    and "lastSuccessfulEndpoint s = Some e"
    and "axios env (requests s) (cached_request e (trim ident) st) = Success a"
  shows "updateAppointmentStatus env now ident st s
           = (Inr a, s\<lparr>requests := requests s @ [cached_request e (trim ident) st]\<rparr>)"
  unfolding updateAppointmentStatus_def update_try_accepted [OF assms(1-3)]
    try_cached_remembered [OF assms(4)]
  by (simp add: assms(5))

lemma update_scan_finds:
  assumes "token s \<noteq> None" "token s \<noteq> Some []" "10 \<le> length (trim ident)"
    and "lastSuccessfulEndpoint s = Some e"
    and "\<not> answered (axios env (requests s) (cached_request e (trim ident) st))"
    and "candidate_endpoints (API_URL env) (trim ident) = pre @ c # post"
    and "all_fail env (requests s @ [cached_request e (trim ident) st])
           (map (\<lambda>e. endpoint_request e st) pre)"
    and "axios env (requests s @ cached_request e (trim ident) st # map (\<lambda>e. endpoint_request e st) pre)
           (endpoint_request c st) = Success a"
  shows "updateAppointmentStatus env now ident st s
           = (Inr a, s\<lparr>requests := requests s @ cached_request e (trim ident) st
                                       # map (\<lambda>e. endpoint_request e st) pre @ [endpoint_request c st],
                       lastSuccessfulEndpoint := Some c\<rparr>)"
proof -
  let ?creq = "cached_request e (trim ident) st"
  let ?s1 = "s\<lparr>requests := requests s @ [?creq]\<rparr>"
  from assms(5) obtain f where f: "axios env (requests s) ?creq = Failure f"
    by (cases "axios env (requests s) ?creq") auto
  have a: "all_fail env (requests ?s1) (map (\<lambda>e. endpoint_request e st) pre)"
    using assms(7) by simp
  have b: "axios env (requests ?s1 @ map (\<lambda>e. endpoint_request e st) pre) (endpoint_request c st) = Success a"
    using assms(8) by simp
  note te = try_endpoints_first_success [OF a b, of post None]
  show ?thesis
    unfolding updateAppointmentStatus_def update_try_accepted [OF assms(1-3)]
      try_cached_remembered [OF assms(4)] assms(6)
    by (simp add: f te)
qed

lemma update_all_fail_keeps_endpoint:
  assumes "token s \<noteq> None" "token s \<noteq> Some []" "10 \<le> length (trim ident)"
    and "all_fail env (requests s) (attempts env s (trim ident) st)"
  shows "lastSuccessfulEndpoint (snd (updateAppointmentStatus env now ident st s))
           = lastSuccessfulEndpoint s"
proof -
  let ?s3 = "addPendingOperation now (trim ident) st
               (s\<lparr>requests := requests s @ attempts env s (trim ident) st\<rparr>)"
  obtain mock s4 where mf: "mock_fallback now (trim ident) st ?s3 = (mock, s4)"
    by (cases "mock_fallback now (trim ident) st ?s3")
  from mock_fallback_fields(6) [OF mf] show ?thesis
    unfolding update_try_all_fail [OF assms] by (simp add: mf addPendingOperation_fields)
qed

lemma sync_requests_first:
  "\<exists>more. requests (snd (syncAppointmentToDatabase env ident st s))
     = requests s @ endpoint_request
         \<lparr>url = API_URL env @ js ''/appointments/'' @ trim ident, http_method = js ''PATCH''\<rparr> st # more"
proof -
  obtain r s' where te: "try_endpoints env st (sync_endpoints (API_URL env) (trim ident)) None s = (r, s')"
    by (cases "try_endpoints env st (sync_endpoints (API_URL env) (trim ident)) None s")
  from try_endpoints_requests [OF te] obtain more where
    "requests s' = requests s @ more" "more \<noteq> []"
    "hd more = endpoint_request (hd (sync_endpoints (API_URL env) (trim ident))) st"
    by (auto simp: sync_endpoints_def)
  then have "requests s' = requests s @ endpoint_request
         \<lparr>url = API_URL env @ js ''/appointments/'' @ trim ident, http_method = js ''PATCH''\<rparr> st # tl more"
    by (cases more) (simp_all add: sync_endpoints_def)
  with te show ?thesis
    by (auto simp: syncAppointmentToDatabase_def Let_def split: sum.splits option.splits)
qed

lemma remembered_fields:
  "token remembered = Some (js ''jwt'')" "lastSuccessfulEndpoint remembered = Some earlier_endpoint"
  "requests remembered = []"
  by (simp_all add: remembered_def signed_in_fields)

lemma replace_id_earlier:
  "replace_id (url earlier_endpoint) x_id = js ''/api/appointments/64b7f0a1c2d3e4f5a6b7c8d9''"
  by (simp add: earlier_endpoint_def x_id_def replace_id_def segment_here_def)

lemma replace_id_slips:
  "replace_id (js ''/api/appointments?id=64b7f0a1c2d3e4f5a6b7c8da'') x_id
     = js ''/api/appointments?id=64b7f0a1c2d3e4f5a6b7c8da''"
  "replace_id (js ''/api/appointments/64b7f0a1c2d3e4f5a6b7c8da/status'') x_id
     = js ''/api/appointments/64b7f0a1c2d3e4f5a6b7c8d9status''"
  "replace_id (js ''/api/appointments/appt-00002'') (js ''appt-00001'') = js ''/api/appointments/appt-00002''"
  by (simp_all add: x_id_def replace_id_def segment_here_def)

subsection \<open>The status a cached record takes\<close>

text \<open>The fall-back code rewrites the cached records of the appointment.\<close>

lemma cancelled_x_fields:
  "token cancelled_x = Some (js ''jwt'')" "lastSuccessfulEndpoint cancelled_x = None"
  "requests cancelled_x = []" "pendingOperations cancelled_x = []"
  "cachedAppointments cancelled_x = Json [appt_x\<lparr>appt_status := Cancelled\<rparr>, appt_y]"
  "onLine cancelled_x = True" "isProcessing cancelled_x = False"
  "MOCK_DATA cancelled_x = Map.empty" "floating cancelled_x = []"
  by (simp_all add: cancelled_x_def signed_in_fields)

subsection \<open>A pass run in steps\<close>

text \<open>A pass that is started with \<open>spawn_sync\<close> and then resumed until it ends, with
  nothing else happening in between, leaves the state that \<open>syncPendingOperations\<close> gives.\<close>

lemma floating_requests_swap:
  "s\<lparr>floating := fl, requests := R\<rparr> = s\<lparr>requests := R, floating := fl\<rparr>"
  by (cases s) simp

lemma try_endpoints_floating:
  "try_endpoints env st es le (s\<lparr>floating := fl\<rparr>)
     = (case try_endpoints env st es le s of (r, s') \<Rightarrow> (r, s'\<lparr>floating := fl\<rparr>))"
proof (induction es arbitrary: le s)
  case Nil
  then show ?case by simp
next
  case (Cons e es)
  show ?case
  proof (cases "axios env (requests s) (endpoint_request e st)")
    case (Success a)
    then show ?thesis by (simp add: Let_def)
  next
    case (Failure f)
    let ?s1 = "s\<lparr>requests := requests s @ [endpoint_request e st]\<rparr>"
    have "try_endpoints env st (e # es) le (s\<lparr>floating := fl\<rparr>)
            = try_endpoints env st es (Some f) (?s1\<lparr>floating := fl\<rparr>)"
      using Failure by (simp add: Let_def floating_requests_swap)
    also have "\<dots> = (case try_endpoints env st es (Some f) ?s1 of
                          (r, s') \<Rightarrow> (r, s'\<lparr>floating := fl\<rparr>))"
      by (rule Cons.IH)
    also have "\<dots> = (case try_endpoints env st (e # es) le s of
                          (r, s') \<Rightarrow> (r, s'\<lparr>floating := fl\<rparr>))"
      using Failure by (simp add: Let_def)
    finally show ?thesis .
  qed
qed

lemma sync_floating:
  "syncAppointmentToDatabase env i st (s\<lparr>floating := fl\<rparr>)
     = (case syncAppointmentToDatabase env i st s of (r, s') \<Rightarrow> (r, s'\<lparr>floating := fl\<rparr>))"
  by (simp add: syncAppointmentToDatabase_def Let_def try_endpoints_floating
      split: prod.splits sum.splits option.splits)

lemma resume_idle: "floating s = [] \<Longrightarrow> (resume env 0 ^^ n) s = s"
  by (induction n) (simp_all add: resume_def)

lemma pass_in_steps_aux:
  assumes "floating s = [\<lparr>todo = ops, operationsToRemove = rm\<rparr>]" and "ops \<noteq> []"
  shows "(resume env 0 ^^ length ops) s
           = (case drain_loop env ops rm (s\<lparr>floating := []\<rparr>) of (rm', s') \<Rightarrow> finish_pass rm' s')"
  using assms
proof (induction ops arbitrary: s rm)
  case Nil
  then show ?case by simp
next
  case (Cons operation rest)
  obtain r s' where sy: "syncAppointmentToDatabase env (op_id operation) (op_status operation) s = (r, s')"
    by (cases "syncAppointmentToDatabase env (op_id operation) (op_status operation) s")
  from sync_frame [OF sy] Cons.prems(1) have fl': "floating s' = [\<lparr>todo = operation # rest, operationsToRemove = rm\<rparr>]"
    by simp
  have step: "(resume env 0 ^^ length (operation # rest)) s = (resume env 0 ^^ length rest) (resume env 0 s)"
    by (simp add: funpow_swap1)
  show ?case
  proof (cases r)
    case (Inl e)
    with sy Cons.prems(1) have r1: "resume env 0 s = finish_pass rm (s'\<lparr>floating := []\<rparr>)"
      by (simp add: resume_def Let_def)
    have "floating (finish_pass rm (s'\<lparr>floating := []\<rparr>)) = []"
      by (simp add: finish_pass_fields)
    from resume_idle [OF this] r1 step sy Inl show ?thesis
      by (simp add: sync_floating)
  next
    case (Inr a)
    show ?thesis
    proof (cases "rest = []")
      case True
      with sy Inr Cons.prems(1) show ?thesis
        by (simp add: resume_def Let_def sync_floating)
    next
      case False
      let ?s1 = "s'\<lparr>floating := [\<lparr>todo = rest, operationsToRemove = rm @ [op_id operation]\<rparr>]\<rparr>"
      from sy Inr Cons.prems(1) False have r1: "resume env 0 s = ?s1"
        by (simp add: resume_def Let_def)
      have "floating ?s1 = [\<lparr>todo = rest, operationsToRemove = rm @ [op_id operation]\<rparr>]" by simp
      from Cons.IH [OF this False] r1 step sy Inr show ?thesis
        by (simp add: sync_floating)
    qed
  qed
qed

lemma pass_in_steps:
  assumes "floating s = []"
  shows "(resume env 0 ^^ length (pendingOperations s)) (spawn_sync s) = syncPendingOperations env s"
proof (cases "isProcessing s \<or> length (pendingOperations s) = 0 \<or> \<not> onLine s")
  case True
  then have "spawn_sync s = s" "syncPendingOperations env s = s"
    by (simp_all add: spawn_sync_def syncPendingOperations_def)
  with resume_idle [OF assms] show ?thesis by simp
next
  case False
  let ?ops = "sort_key timestamp (pendingOperations s)"
  let ?s1 = "s\<lparr>isProcessing := True, floating := [\<lparr>todo = ?ops, operationsToRemove = []\<rparr>]\<rparr>"
  from False assms have sp: "spawn_sync s = ?s1" by (simp add: spawn_sync_def)
  from False have ne: "?ops \<noteq> []" by (cases "pendingOperations s") auto
  have fl: "floating ?s1 = [\<lparr>todo = ?ops, operationsToRemove = []\<rparr>]" by simp
  have eq: "?s1\<lparr>floating := []\<rparr> = s\<lparr>isProcessing := True\<rparr>"
    using assms by simp
  from pass_in_steps_aux [OF fl ne, of env] have
    "(resume env 0 ^^ length (pendingOperations s)) ?s1
       = (case drain_loop env ?ops [] (s\<lparr>isProcessing := True\<rparr>) of (rm', s') \<Rightarrow> finish_pass rm' s')"
    unfolding eq by simp
  with False sp show ?thesis
    by (simp add: syncPendingOperations_def Let_def split: prod.splits)
qed

subsection \<open>A pass in flight and a newer intent\<close>

text \<open>
  A pass removes the operations it has synced by identifier. When an entry is overwritten
  while a pass holds the older entry in its snapshot, the pass sends the older status and
  then removes the newer entry: the first appointment below is cancelled on the server,
  and its later confirmation leaves the queue without having been sent.
\<close>

lemma newer_intent_removed_by_pass_in_flight:
  "pendingOperations (run answers_once [AddPending 1 (js ''a'') Cancelled, AddPending 2 (js ''a'') Confirmed] fresh)
     = [\<lparr>op_id = js ''a'', op_status = Confirmed, timestamp = 2\<rparr>]"
  "pendingOperations
     (run answers_once [AddPending 1 (js ''a'') Cancelled, AddPending 2 (js ''a'') Confirmed, Resume 0] fresh)
     = []"
  "requests
     (run answers_once [AddPending 1 (js ''a'') Cancelled, AddPending 2 (js ''a'') Confirmed, Resume 0] fresh)
     = [\<lparr>req_method = js ''PATCH'', req_url = js ''/api/appointments/a'', req_data = Some Cancelled\<rparr>]"
  by (simp_all add: run_def addPendingOperation_def enqueue_def savePendingOperations_def
      spawn_sync_def resume_def finish_pass_def syncAppointmentToDatabase_def sync_endpoints_def
      endpoint_request_def answers_once_def trim_def  Let_def fresh_fields)


subsection \<open>The identifier in a remembered address\<close>

text \<open>
  When the leftmost match of the regular expression is the end of the address and the
  identifier holds no dollar sign, \<open>replace_id\<close> puts the identifier in the place of the
  last 24 characters. A dollar sign in the identifier is read as a replacement pattern.
\<close>

lemma expand_plain:
  "Latin CHR ''$'' \<notin> set r \<Longrightarrow> expand r matched before after = r"
  by (induction r matched before after rule: expand.induct) auto

lemma replace_from_at_end:
  assumes "first_segment u = Some k" and "k + 25 = length u"
    and "Latin CHR ''$'' \<notin> set cleanId"
  shows "replace_from before u cleanId = before @ take k u @ Latin CHR ''/'' # cleanId"
  using assms(1,2)
proof (induction u arbitrary: before k)
  case Nil
  then show ?case by simp
next
  case (Cons c cs)
  show ?case
  proof (cases "segment_here (c # cs)")
    case True
    with Cons.prems have k: "k = 0" and len: "length cs = 24" by auto
    from assms(3) have "expand (Latin CHR ''/'' # cleanId) (c # cs) before [] = Latin CHR ''/'' # cleanId"
      by (intro expand_plain) simp
    with True k len show ?thesis by simp
  next
    case False
    with Cons.prems obtain k' where k': "first_segment cs = Some k'" "k = Suc k'" by auto
    with Cons.prems(2) have "k' + 25 = length cs" by simp
    from Cons.IH [OF k'(1) this, of "before @ [c]"] False k'(2) show ?thesis by simp
  qed
qed

lemma replace_id_at_end:
  assumes "ends_with_id u" and "Latin CHR ''$'' \<notin> set cleanId"
  shows "replace_id u cleanId = take (length u - 24) u @ cleanId"
proof -
  from assms(1) obtain k where k: "first_segment u = Some k" "k + 25 = length u"
    by (auto simp: ends_with_id_def split: option.splits)
  have seg: "first_segment v = Some j \<Longrightarrow> j < length v \<and> v ! j = Latin CHR ''/''" for v j
  proof (induction v arbitrary: j)
    case Nil
    then show ?case by simp
  next
    case (Cons c cs)
    then show ?case by (auto simp: segment_here_def split: if_splits)
  qed
  from seg [OF k(1)] have "take (Suc k) u = take k u @ [Latin CHR ''/'']"
    by (simp add: take_Suc_conv_app_nth)
  moreover from k(2) have "length u - 24 = Suc k" by simp
  ultimately show ?thesis
    using replace_from_at_end [OF k assms(2), of "[]"] by (simp add: replace_id_def)
qed

lemma replace_id_dollar:
  "replace_id (js ''/api/appointments/64b7f0a1c2d3e4f5a6b7c8da'') (js ''$&0123456789'')
     = js ''/api/appointments//64b7f0a1c2d3e4f5a6b7c8da0123456789''"
  by (simp add: replace_id_def segment_here_def)

lemma cached_request_substituted:
  assumes "ends_with_id (url e)" and "Latin CHR ''$'' \<notin> set cleanId"
  shows "cached_request e cleanId st = substituted_request e cleanId st"
  by (simp add: cached_request_def substituted_request_def replace_id_at_end [OF assms])

lemma earlier_endpoint_ends_with_id: "ends_with_id (url earlier_endpoint)"
  by (simp add: ends_with_id_def earlier_endpoint_def segment_here_def)

lemma x_id_plain: "Latin CHR ''$'' \<notin> set x_id"
  by (simp add: x_id_def)

subsection \<open>The record the fall-back code makes\<close>

text \<open>
  The record returned when no endpoint answers is \<open>known_record\<close> with the wanted status
  and the time of the call. In every state the service reaches from its start,
  \<open>MOCK_DATA\<close> keeps under an identifier a record with that identifier.
\<close>

lemma known_record_cong:
  "MOCK_DATA s' = MOCK_DATA s \<Longrightarrow> cachedAppointments s' = cachedAppointments s \<Longrightarrow>
   known_record now c s' = known_record now c s"
  by (simp add: known_record_def split: option.splits)

lemma known_record_id:
  "mock_keyed_at s c \<Longrightarrow> appt_id (known_record now c s) = c"
  by (auto simp: known_record_def mock_keyed_at_def find_Some_iff split: option.splits item.splits)

lemma fallback_mock:
  assumes "mock_fallback now c st s = (mock, s')"
  shows "mock = (known_record now c s)\<lparr>appt_status := st, updatedAt := now\<rparr>"
    and "MOCK_DATA s' = (MOCK_DATA s)(c \<mapsto> mock)"
  using assms
  by (auto simp: mock_fallback_def known_record_def Let_def split: item.splits option.splits)

lemma update_all_fail_result:
  assumes "token s \<noteq> None" "token s \<noteq> Some []" "10 \<le> length (trim ident)"
    and "all_fail env (requests s) (attempts env s (trim ident) st)"
  shows "fst (updateAppointmentStatus env now ident st s)
           = Inr (Some ((known_record now (trim ident) s)\<lparr>appt_status := st, updatedAt := now\<rparr>))"
    and "cachedAppointments (snd (updateAppointmentStatus env now ident st s))
           = (case cachedAppointments s of
                Json appointments \<Rightarrow>
                  Json (map (\<lambda>a. if appt_id a = trim ident
                                  then (known_record now (trim ident) s)\<lparr>appt_status := st, updatedAt := now\<rparr>
                                  else a) appointments)
              | Missing \<Rightarrow> Missing
              | Garbled \<Rightarrow> Garbled)"
proof -
  let ?c = "trim ident"
  let ?s3 = "addPendingOperation now ?c st (s\<lparr>requests := requests s @ attempts env s ?c st\<rparr>)"
  obtain mock s4 where mf: "mock_fallback now ?c st ?s3 = (mock, s4)"
    by (cases "mock_fallback now ?c st ?s3")
  have kr: "known_record now ?c ?s3 = known_record now ?c s"
    by (rule known_record_cong) (simp_all add: addPendingOperation_fields)
  have c3: "cachedAppointments ?s3 = cachedAppointments s"
    by (simp add: addPendingOperation_fields)
  note m = fallback_mock(1) [OF mf, unfolded kr]
  show "fst (updateAppointmentStatus env now ident st s)
           = Inr (Some ((known_record now ?c s)\<lparr>appt_status := st, updatedAt := now\<rparr>))"
    unfolding update_try_all_fail [OF assms] by (simp add: mf m)
  show "cachedAppointments (snd (updateAppointmentStatus env now ident st s))
           = (case cachedAppointments s of
                Json appointments \<Rightarrow>
                  Json (map (\<lambda>a. if appt_id a = ?c
                                  then (known_record now ?c s)\<lparr>appt_status := st, updatedAt := now\<rparr>
                                  else a) appointments)
              | Missing \<Rightarrow> Missing
              | Garbled \<Rightarrow> Garbled)"
    unfolding update_try_all_fail [OF assms]
    using fallback_result(3,4,5) [OF mf] c3 m
    by (cases "cachedAppointments s") (simp_all add: mf)
qed

lemma rethrow_mock:
  "rethrow e s = (e', s') \<Longrightarrow> MOCK_DATA s' = MOCK_DATA s"
  by (induction e s rule: rethrow.induct) (auto split: if_splits)

lemma resume_mock: "MOCK_DATA (resume env k s) = MOCK_DATA s"
proof (cases "length (floating s) \<le> k")
  case True
  then show ?thesis by (simp add: resume_def)
next
  case False
  let ?p = "floating s ! k"
  show ?thesis
  proof (cases "todo ?p")
    case Nil
    with False show ?thesis by (simp add: resume_def Let_def finish_pass_fields)
  next
    case (Cons operation rest)
    obtain r s' where sy: "syncAppointmentToDatabase env (op_id operation) (op_status operation) s = (r, s')"
      by (cases "syncAppointmentToDatabase env (op_id operation) (op_status operation) s")
    from sync_frame [OF sy] have "MOCK_DATA s' = MOCK_DATA s" by simp
    with False Cons sy show ?thesis
      by (cases r) (simp_all add: resume_def Let_def finish_pass_fields)
  qed
qed

lemma getUserAppointments_mock:
  "MOCK_DATA (snd (getUserAppointments env s)) = MOCK_DATA s"
  by (simp add: getUserAppointments_def Let_def spawn_sync_fields split: outcome.splits item.splits)

lemma updateAppointmentStatus_try_mock:
  assumes "updateAppointmentStatus_try env now ident st s = (r, s')"
  shows "MOCK_DATA s' = MOCK_DATA s
     \<or> MOCK_DATA s' = (MOCK_DATA s)(trim ident \<mapsto>
           (known_record now (trim ident) s)\<lparr>appt_status := st, updatedAt := now\<rparr>)"
proof (cases "token s = None \<or> token s = Some [] \<or> length (trim ident) < 10")
  case True
  from update_try_rejected [OF this, of env now st] assms show ?thesis by auto
next
  case False
  then have acc: "token s \<noteq> None" "token s \<noteq> Some []" "10 \<le> length (trim ident)" by auto
  note unf = update_try_accepted [OF acc, of env now st]
  obtain c s1 where tc: "try_cached env (trim ident) st s = (c, s1)"
    by (cases "try_cached env (trim ident) st s")
  note f1 = try_cached_frame [OF tc]
  show ?thesis
  proof (cases c)
    case (Some a)
    with unf tc assms f1 show ?thesis by simp
  next
    case None
    obtain r2 s2 where te: "try_endpoints env st (candidate_endpoints (API_URL env) (trim ident)) None s1 = (r2, s2)"
      by (cases "try_endpoints env st (candidate_endpoints (API_URL env) (trim ident)) None s1")
    note f2 = try_endpoints_frame [OF te]
    show ?thesis
    proof (cases r2)
      case (Inr a)
      with unf tc None te assms f1 f2 show ?thesis by simp
    next
      case (Inl le)
      let ?s3 = "addPendingOperation now (trim ident) st s2"
      obtain m s4 where mf: "mock_fallback now (trim ident) st ?s3 = (m, s4)"
        by (cases "mock_fallback now (trim ident) st ?s3")
      have kr: "known_record now (trim ident) ?s3 = known_record now (trim ident) s"
        by (rule known_record_cong) (simp_all add: addPendingOperation_fields f1 f2)
      from fallback_mock [OF mf] kr f1 f2
      have "MOCK_DATA s4 = (MOCK_DATA s)(trim ident \<mapsto>
           (known_record now (trim ident) s)\<lparr>appt_status := st, updatedAt := now\<rparr>)"
        by (simp add: addPendingOperation_fields)
      with unf tc None te Inl mf assms show ?thesis by simp
    qed
  qed
qed

lemma updateAppointmentStatus_mock:
  "MOCK_DATA (snd (updateAppointmentStatus env now ident st s)) = MOCK_DATA s
   \<or> MOCK_DATA (snd (updateAppointmentStatus env now ident st s))
       = (MOCK_DATA s)(trim ident \<mapsto>
           (known_record now (trim ident) s)\<lparr>appt_status := st, updatedAt := now\<rparr>)"
proof -
  obtain r s' where t: "updateAppointmentStatus_try env now ident st s = (r, s')"
    by (cases "updateAppointmentStatus_try env now ident st s")
  note q = updateAppointmentStatus_try_mock [OF t]
  show ?thesis
  proof (cases r)
    case (Inr a)
    with t q show ?thesis by (simp add: updateAppointmentStatus_def)
  next
    case (Inl e)
    obtain e' s'' where rt: "rethrow e s' = (e', s'')" by (cases "rethrow e s'")
    from rethrow_mock [OF rt] q t Inl rt show ?thesis
      by (simp add: updateAppointmentStatus_def)
  qed
qed

lemma updateAppointmentStatus_keyed:
  assumes "\<And>k. mock_keyed_at s k"
  shows "mock_keyed_at (snd (updateAppointmentStatus env now ident st s)) k"
  using updateAppointmentStatus_mock [of env now ident st s] assms [of k]
    known_record_id [OF assms [of "trim ident"], of now]
  by (auto simp: mock_keyed_at_def)

lemma fire_keyed:
  assumes "\<And>k. mock_keyed_at s k"
  shows "mock_keyed_at (fire env ev s) k"
proof (cases ev)
  case (UpdateStatus now i st)
  with updateAppointmentStatus_keyed [OF assms] show ?thesis by simp
next
  case (CancelClicked now i)
  with updateAppointmentStatus_keyed [OF assms] show ?thesis
    by (simp add: handleCancelAppointment_def)
qed (use assms [of k] in \<open>simp_all add: mock_keyed_at_def addPendingOperation_fields
      getUserAppointments_mock spawn_sync_fields resume_mock setSuccessfulEndpoint_def\<close>)

lemma run_keyed:
  "(\<And>k. mock_keyed_at s k) \<Longrightarrow> mock_keyed_at (run env evs s) k"
  unfolding run_def
proof (induction evs arbitrary: s k)
  case Nil
  then show ?case by simp
next
  case (Cons ev evs)
  show ?case by (simp, rule Cons.IH, rule fire_keyed, rule Cons.prems)
qed

lemma module_start_keyed: "mock_keyed_at (module_start tok cache stored online) k"
  by (simp add: module_start_def loadPendingOperations_def mock_keyed_at_def split: item.splits)

subsection \<open>Runs in which only the list asks for a status\<close>

text \<open>Every event of such a run keeps \<open>cancel_only\<close>.\<close>

lemma try_endpoints_cancel:
  "try_endpoints env Cancelled es le s = (r, s') \<Longrightarrow>
   list_all (\<lambda>r. req_data r = None \<or> req_data r = Some Cancelled) (requests s) \<Longrightarrow>
   list_all (\<lambda>r. req_data r = None \<or> req_data r = Some Cancelled) (requests s')"
proof (induction es arbitrary: le s)
  case Nil
  then show ?case by simp
next
  case (Cons e es)
  show ?case
  proof (cases "axios env (requests s) (endpoint_request e Cancelled)")
    case (Success a)
    with Cons.prems show ?thesis by (auto simp: Let_def endpoint_request_def)
  next
    case (Failure f)
    with Cons.prems(1) have
      "try_endpoints env Cancelled es (Some f)
         (s\<lparr>requests := requests s @ [endpoint_request e Cancelled]\<rparr>) = (r, s')"
      by (simp add: Let_def)
    from Cons.IH [OF this] Cons.prems(2) show ?thesis by (simp add: endpoint_request_def)
  qed
qed

lemma sync_cancel:
  assumes "syncAppointmentToDatabase env ident Cancelled s = (r, s')"
    and "list_all (\<lambda>r. req_data r = None \<or> req_data r = Some Cancelled) (requests s)"
  shows "list_all (\<lambda>r. req_data r = None \<or> req_data r = Some Cancelled) (requests s')"
proof -
  obtain r0 s0 where t: "try_endpoints env Cancelled (sync_endpoints (API_URL env) (trim ident)) None s = (r0, s0)"
    by (cases "try_endpoints env Cancelled (sync_endpoints (API_URL env) (trim ident)) None s")
  with assms(1) have "s' = s0"
    by (auto simp: syncAppointmentToDatabase_def Let_def split: sum.splits option.splits)
  with try_endpoints_cancel [OF t assms(2)] show ?thesis by simp
qed

lemma finish_pass_cancel: "cancel_only s \<Longrightarrow> cancel_only (finish_pass rm s)"
  by (auto simp: cancel_only_def finish_pass_def savePendingOperations_def Let_def list_all_iff)

lemma spawn_sync_cancel: "cancel_only s \<Longrightarrow> cancel_only (spawn_sync s)"
  by (auto simp: cancel_only_def spawn_sync_def list_all_iff)

lemma without_pass:
  "list_all P xs \<Longrightarrow> list_all P (take k xs @ drop (Suc k) xs)"
  by (auto simp: list_all_iff dest: in_set_takeD in_set_dropD)

lemma resume_cancel:
  assumes "cancel_only s"
  shows "cancel_only (resume env k s)"
proof (cases "length (floating s) \<le> k")
  case True
  with assms show ?thesis by (simp add: resume_def)
next
  case False
  let ?p = "floating s ! k"
  let ?others = "take k (floating s) @ drop (Suc k) (floating s)"
  from assms have q: "list_all (\<lambda>op. op_status op = Cancelled) (pendingOperations s)"
    and fl: "list_all (\<lambda>p. list_all (\<lambda>op. op_status op = Cancelled) (todo p)) (floating s)"
    and rq: "list_all (\<lambda>r. req_data r = None \<or> req_data r = Some Cancelled) (requests s)"
    by (simp_all add: cancel_only_def)
  from False fl have p: "list_all (\<lambda>op. op_status op = Cancelled) (todo ?p)"
    by (simp add: list_all_length)
  note oth = without_pass [OF fl, of k]
  show ?thesis
  proof (cases "todo ?p")
    case Nil
    have "cancel_only (s\<lparr>floating := ?others\<rparr>)"
      using q oth rq by (simp add: cancel_only_def)
    from finish_pass_cancel [OF this] False Nil show ?thesis
      by (simp add: resume_def Let_def)
  next
    case (Cons operation rest)
    with p have st: "op_status operation = Cancelled"
      and rest: "list_all (\<lambda>op. op_status op = Cancelled) rest" by simp_all
    obtain r s' where sy: "syncAppointmentToDatabase env (op_id operation) Cancelled s = (r, s')"
      by (cases "syncAppointmentToDatabase env (op_id operation) Cancelled s")
    note fr = sync_frame [OF sy]
    note rq' = sync_cancel [OF sy rq]
    have a: "cancel_only (s'\<lparr>floating := ?others\<rparr>)"
      using q oth rq' fr by (simp add: cancel_only_def)
    have "list_all (\<lambda>p. list_all (\<lambda>op. op_status op = Cancelled) (todo p))
            ((floating s)[k := \<lparr>todo = rest, operationsToRemove = rm\<rparr>])" for rm
      using fl rest by (auto simp: list_all_iff dest!: set_update_subset_insert [THEN subsetD])
    then have b: "cancel_only (s'\<lparr>floating := (floating s)[k := \<lparr>todo = rest, operationsToRemove = rm\<rparr>]\<rparr>)" for rm
      using q rq' fr by (simp add: cancel_only_def)
    from False Cons st sy a b finish_pass_cancel [OF a] show ?thesis
      by (cases r) (simp_all add: resume_def Let_def)
  qed
qed

lemma getUserAppointments_cancel:
  assumes "cancel_only s"
  shows "cancel_only (snd (getUserAppointments env s))"
proof -
  have a: "cancel_only (s\<lparr>requests := requests s @ [list_request env]\<rparr>)"
    using assms by (simp add: cancel_only_def list_request_def)
  have b: "\<And>d. cancel_only (s\<lparr>requests := requests s @ [list_request env], cachedAppointments := Json d\<rparr>)"
    using assms by (simp add: cancel_only_def list_request_def)
  show ?thesis
    using a b spawn_sync_cancel [OF b]
    by (auto simp: getUserAppointments_def Let_def split: outcome.splits item.splits)
qed

lemma enqueue_cancel:
  assumes "cancel_only s"
  shows "cancel_only (enqueue now i Cancelled s)"
proof -
  have "list_all (\<lambda>op. op_status op = Cancelled) (pendingOperations (enqueue now i Cancelled s))"
    using assms
    by (auto simp: cancel_only_def enqueue_def savePendingOperations_def Let_def list_all_iff
             split: option.splits dest!: set_update_subset_insert [THEN subsetD])
  with assms show ?thesis by (simp add: cancel_only_def enqueue_fields)
qed

lemma addPendingOperation_cancel:
  "cancel_only s \<Longrightarrow> cancel_only (addPendingOperation now i Cancelled s)"
  by (simp add: addPendingOperation_def Let_def spawn_sync_cancel enqueue_cancel)

lemma try_cached_cancel:
  assumes "try_cached env c Cancelled s = (r, s')" and "cancel_only s"
  shows "cancel_only s'"
  using assms
  by (auto simp: try_cached_def Let_def cancel_only_def cached_request_def
           split: option.splits outcome.splits)

lemma updateAppointmentStatus_try_cancel:
  assumes "cancel_only s" and "updateAppointmentStatus_try env now ident Cancelled s = (r, s')"
  shows "cancel_only s'"
proof (cases "token s = None \<or> token s = Some [] \<or> length (trim ident) < 10")
  case True
  from update_try_rejected [OF this, of env now Cancelled] assms show ?thesis by auto
next
  case False
  then have acc: "token s \<noteq> None" "token s \<noteq> Some []" "10 \<le> length (trim ident)" by auto
  note unf = update_try_accepted [OF acc, of env now Cancelled]
  obtain c s1 where tc: "try_cached env (trim ident) Cancelled s = (c, s1)"
    by (cases "try_cached env (trim ident) Cancelled s")
  note c1 = try_cached_cancel [OF tc assms(1)]
  show ?thesis
  proof (cases c)
    case (Some a)
    with unf tc assms(2) c1 show ?thesis by simp
  next
    case None
    obtain r2 s2 where te: "try_endpoints env Cancelled (candidate_endpoints (API_URL env) (trim ident)) None s1 = (r2, s2)"
      by (cases "try_endpoints env Cancelled (candidate_endpoints (API_URL env) (trim ident)) None s1")
    from try_endpoints_frame [OF te] try_endpoints_cancel [OF te] c1 have c2: "cancel_only s2"
      by (simp add: cancel_only_def)
    show ?thesis
    proof (cases r2)
      case (Inr a)
      with unf tc None te assms(2) c2 show ?thesis by simp
    next
      case (Inl le)
      obtain m s4 where mf: "mock_fallback now (trim ident) Cancelled (addPendingOperation now (trim ident) Cancelled s2) = (m, s4)"
        by (cases "mock_fallback now (trim ident) Cancelled (addPendingOperation now (trim ident) Cancelled s2)")
      from mock_fallback_fields(1,3,4) [OF mf] addPendingOperation_cancel [OF c2, of now "trim ident"]
      have "cancel_only s4" by (simp add: cancel_only_def)
      with unf tc None te Inl mf assms(2) show ?thesis by simp
    qed
  qed
qed

lemma updateAppointmentStatus_cancel:
  assumes "cancel_only s"
  shows "cancel_only (snd (updateAppointmentStatus env now ident Cancelled s))"
proof -
  obtain r s' where t: "updateAppointmentStatus_try env now ident Cancelled s = (r, s')"
    by (cases "updateAppointmentStatus_try env now ident Cancelled s")
  note c = updateAppointmentStatus_try_cancel [OF assms t]
  show ?thesis
  proof (cases r)
    case (Inr a)
    with t c show ?thesis by (simp add: updateAppointmentStatus_def)
  next
    case (Inl e)
    obtain e' s'' where rt: "rethrow e s' = (e', s'')" by (cases "rethrow e s'")
    from rethrow_fields(1,3,4) [OF rt] c have "cancel_only s''" by (simp add: cancel_only_def)
    with t Inl rt show ?thesis by (simp add: updateAppointmentStatus_def)
  qed
qed

lemma fire_cancel:
  assumes "from_the_list ev" and "cancel_only s"
  shows "cancel_only (fire env ev s)"
proof (cases ev)
  case (AddPending now i st)
  with assms(1) show ?thesis by simp
next
  case (UpdateStatus now i st)
  with assms(1) show ?thesis by simp
qed (use assms(2) in \<open>simp_all add: getUserAppointments_cancel spawn_sync_cancel resume_cancel
      updateAppointmentStatus_cancel handleCancelAppointment_def\<close>,
     simp_all add: cancel_only_def setSuccessfulEndpoint_def)

lemma module_start_cancel:
  "(case stored of Json ops \<Rightarrow> list_all (\<lambda>op. op_status op = Cancelled) ops
    | Missing \<Rightarrow> True | Garbled \<Rightarrow> True) \<Longrightarrow>
   cancel_only (module_start tok cache stored online)"
  by (simp add: module_start_def loadPendingOperations_def cancel_only_def split: item.splits)

lemma run_cancel:
  "\<forall>ev\<in>set evs. from_the_list ev \<Longrightarrow> cancel_only s \<Longrightarrow> cancel_only (run env evs s)"
  unfolding run_def by (induction evs arbitrary: s) (simp_all add: fire_cancel)

text \<open>Every event of such a run, a listing apart, leaves each cached status as it was or
  makes it \<open>cancelled\<close>.\<close>

lemma only_cancels_refl: "only_cancels c c"
  by (cases c) (simp_all add: list_all2_same)

lemma only_cancels_trans:
  "only_cancels a b \<Longrightarrow> only_cancels b c \<Longrightarrow> only_cancels a c"
proof (induction a b rule: only_cancels.induct)
  case (1 xs ys)
  then obtain zs where c: "c = Json zs" by (cases c) auto
  from 1 c have "list_all2 (\<lambda>x y. appt_status y = appt_status x \<or> appt_status y = Cancelled) xs ys"
    "list_all2 (\<lambda>x y. appt_status y = appt_status x \<or> appt_status y = Cancelled) ys zs" by simp_all
  then have "list_all2 (\<lambda>x y. appt_status y = appt_status x \<or> appt_status y = Cancelled) xs zs"
    by (rule list_all2_trans [rotated]) auto
  with c show ?case by simp
qed simp_all

lemma resume_cache: "cachedAppointments (resume env k s) = cachedAppointments s"
proof (cases "length (floating s) \<le> k")
  case True
  then show ?thesis by (simp add: resume_def)
next
  case False
  let ?p = "floating s ! k"
  show ?thesis
  proof (cases "todo ?p")
    case Nil
    with False show ?thesis by (simp add: resume_def Let_def finish_pass_fields)
  next
    case (Cons operation rest)
    obtain r s' where sy: "syncAppointmentToDatabase env (op_id operation) (op_status operation) s = (r, s')"
      by (cases "syncAppointmentToDatabase env (op_id operation) (op_status operation) s")
    from sync_frame [OF sy] have "cachedAppointments s' = cachedAppointments s" by simp
    with False Cons sy show ?thesis
      by (cases r) (simp_all add: resume_def Let_def finish_pass_fields)
  qed
qed

lemma fallback_only_cancels:
  assumes "mock_fallback now c Cancelled s = (mock, s')"
  shows "only_cancels (cachedAppointments s) (cachedAppointments s')"
proof (cases "cachedAppointments s")
  case (Json appointments)
  have "list_all2 (\<lambda>x y. appt_status y = appt_status x \<or> appt_status y = Cancelled)
          appointments (map (\<lambda>a. if appt_id a = c then mock else a) appointments)"
    using fallback_result(1) [OF assms] by (simp add: list_all2_conv_all_nth)
  with fallback_result(3) [OF assms Json] Json show ?thesis by simp
qed (use fallback_result(4,5) [OF assms] in simp_all)

lemma updateAppointmentStatus_try_cache:
  assumes "updateAppointmentStatus_try env now ident Cancelled s = (r, s')"
  shows "only_cancels (cachedAppointments s) (cachedAppointments s')"
proof (cases "token s = None \<or> token s = Some [] \<or> length (trim ident) < 10")
  case True
  from update_try_rejected [OF this, of env now Cancelled] assms show ?thesis
    by (auto simp: only_cancels_refl)
next
  case False
  then have acc: "token s \<noteq> None" "token s \<noteq> Some []" "10 \<le> length (trim ident)" by auto
  note unf = update_try_accepted [OF acc, of env now Cancelled]
  obtain c s1 where tc: "try_cached env (trim ident) Cancelled s = (c, s1)"
    by (cases "try_cached env (trim ident) Cancelled s")
  note f1 = try_cached_frame [OF tc]
  show ?thesis
  proof (cases c)
    case (Some a)
    with unf tc assms f1 show ?thesis by (simp add: only_cancels_refl)
  next
    case None
    obtain r2 s2 where te: "try_endpoints env Cancelled (candidate_endpoints (API_URL env) (trim ident)) None s1 = (r2, s2)"
      by (cases "try_endpoints env Cancelled (candidate_endpoints (API_URL env) (trim ident)) None s1")
    note f2 = try_endpoints_frame [OF te]
    show ?thesis
    proof (cases r2)
      case (Inr a)
      with unf tc None te assms f1 f2 show ?thesis by (simp add: only_cancels_refl)
    next
      case (Inl le)
      obtain m s4 where mf: "mock_fallback now (trim ident) Cancelled (addPendingOperation now (trim ident) Cancelled s2) = (m, s4)"
        by (cases "mock_fallback now (trim ident) Cancelled (addPendingOperation now (trim ident) Cancelled s2)")
      from fallback_only_cancels [OF mf] f1 f2
      have "only_cancels (cachedAppointments s) (cachedAppointments s4)"
        by (simp add: addPendingOperation_fields)
      with unf tc None te Inl mf assms show ?thesis by simp
    qed
  qed
qed

lemma updateAppointmentStatus_cache:
  "only_cancels (cachedAppointments s)
     (cachedAppointments (snd (updateAppointmentStatus env now ident Cancelled s)))"
proof -
  obtain r s' where t: "updateAppointmentStatus_try env now ident Cancelled s = (r, s')"
    by (cases "updateAppointmentStatus_try env now ident Cancelled s")
  note c = updateAppointmentStatus_try_cache [OF t]
  show ?thesis
  proof (cases r)
    case (Inr a)
    with t c show ?thesis by (simp add: updateAppointmentStatus_def)
  next
    case (Inl e)
    obtain e' s'' where rt: "rethrow e s' = (e', s'')" by (cases "rethrow e s'")
    from rethrow_fields(5) [OF rt] c t Inl rt show ?thesis
      by (simp add: updateAppointmentStatus_def)
  qed
qed

lemma fire_cache:
  assumes "from_the_list ev" and "ev \<noteq> GetAppointments"
  shows "only_cancels (cachedAppointments s) (cachedAppointments (fire env ev s))"
proof (cases ev)
  case (AddPending now i st)
  with assms(1) show ?thesis by simp
next
  case (UpdateStatus now i st)
  with assms(1) show ?thesis by simp
next
  case GetAppointments
  with assms(2) show ?thesis by simp
qed (simp_all add: only_cancels_refl spawn_sync_fields resume_cache setSuccessfulEndpoint_def
       updateAppointmentStatus_cache handleCancelAppointment_def)

lemma run_cache:
  "\<forall>ev\<in>set evs. from_the_list ev \<Longrightarrow> GetAppointments \<notin> set evs \<Longrightarrow>
   only_cancels (cachedAppointments s) (cachedAppointments (run env evs s))"
  unfolding run_def
proof (induction evs arbitrary: s)
  case Nil
  then show ?case by (simp add: only_cancels_refl)
next
  case (Cons ev evs)
  from Cons.prems have "only_cancels (cachedAppointments s) (cachedAppointments (fire env ev s))"
    by (intro fire_cache) auto
  moreover from Cons.prems have
    "only_cancels (cachedAppointments (fire env ev s)) (cachedAppointments (fold (fire env) evs (fire env ev s)))"
    by (intro Cons.IH) auto
  ultimately show ?case by (auto intro: only_cancels_trans)
qed

lemma run_append: "run env (xs @ ys) s = run env ys (run env xs s)"
  by (simp add: run_def)

section \<open>The claims\<close>

text \<open>
  C9. At start-up the queue is loaded from the durable copy stored under
  \<open>pendingAppointmentOperations\<close>; when that item is absent or does not parse, loading does
  not fail and the in-memory queue is empty. (\<open>module_start\<close> is total: it yields a state
  for every stored item.)
\<close>

theorem startup_queue:
  "pendingOperations (module_start tok cache stored online) =
     (case stored of Json ops \<Rightarrow> ops | Missing \<Rightarrow> [] | Garbled \<Rightarrow> [])"
  by (simp add: module_start_def loadPendingOperations_def split: item.splits)

theorem startup_queue_witness:
  "pendingOperations (module_start None Missing Garbled True) = []
   \<and> pendingOperations (module_start None Missing Missing True) = []
   \<and> pendingOperations (module_start None Missing (Json [op_a]) True) = [op_a]"
  using startup_queue [of None Missing Garbled True]
    startup_queue [of None Missing Missing True]
    startup_queue [of None Missing "Json [op_a]" True]
  by simp


text \<open>
  C10. A call of \<open>updateAppointmentStatus\<close> with no stored token (none, or the empty
  string), or with an id whose trimmed form is empty or shorter than 10 characters, throws,
  and the state it leaves is the state it found: no request was made, the queue and the
  cached appointments are untouched. The id is trimmed as \<open>String.prototype.trim\<close> trims
  it, so an id that is long enough only with a no-break space or a byte-order mark around
  it is rejected too.
\<close>

theorem rejects_without_token_or_id:
  assumes "token s = None \<or> token s = Some [] \<or> length (trim ident) < 10"
  shows "\<exists>m. updateAppointmentStatus env now ident st s = (Inl (Error m), s)"
  using assms
  by (auto simp: updateAppointmentStatus_def updateAppointmentStatus_try_def Let_def)

theorem rejects_without_token_or_id_witness:
  "(\<exists>m. updateAppointmentStatus unreachable 7 (js ''  short  '') Cancelled fresh = (Inl (Error m), fresh))
   \<and> (\<exists>m. updateAppointmentStatus unreachable 7
            (Latin (CHR 0xA0) # Beyond 65023 # js ''123456789'' @ [Beyond 7976, Beyond 12032])
            Cancelled fresh = (Inl (Error m), fresh))
   \<and> (\<exists>m. updateAppointmentStatus unreachable 7 (js ''0123456789ab'') Cancelled (fresh\<lparr>token := None\<rparr>)
          = (Inl (Error m), fresh\<lparr>token := None\<rparr>))"
proof -
  have short: "length (trim (js ''  short  '')) < 10"
    "length (trim (Latin (CHR 0xA0) # Beyond 65023 # js ''123456789'' @ [Beyond 7976, Beyond 12032])) < 10"
    by (simp_all add: trim_def)
  show ?thesis
    using rejects_without_token_or_id [of fresh "js ''  short  ''" unreachable 7 Cancelled]
      rejects_without_token_or_id [of fresh
        "Latin (CHR 0xA0) # Beyond 65023 # js ''123456789'' @ [Beyond 7976, Beyond 12032]"
        unreachable 7 Cancelled]
      rejects_without_token_or_id [of "fresh\<lparr>token := None\<rparr>" "js ''0123456789ab''" unreachable 7 Cancelled]
      short
    by simp
qed

text \<open>
  C7. In every state the service can reach from its start, at most one drain pass is in
  flight, and \<open>isProcessing\<close> is set exactly while one is. A trigger of
  \<open>syncPendingOperations\<close> that arrives then changes nothing: the state after it is the
  state before it, so it makes no request and leaves queue and cache alone, and no second
  pass starts to repeat the requests of the first.
\<close>

theorem single_drain_pass:
  assumes "s = run env evs (module_start tok cache stored online)"
  shows "length (floating s) \<le> 1
    \<and> (isProcessing s \<longleftrightarrow> floating s \<noteq> [])
    \<and> (isProcessing s \<longrightarrow>
         syncPendingOperations env s = s \<and> fire env SyncTrigger s = s
         \<and> floating (fire env SyncTrigger s) = floating s
         \<and> requests (fire env SyncTrigger s) = requests s)"
proof -
  from run_single [OF module_start_single, of env evs tok cache stored online] assms
  have "single_pass s" by simp
  with guard_noop [of s env] show ?thesis
    by (auto simp: single_pass_def)
qed

theorem single_drain_pass_witness:
  "isProcessing draining \<and> length (floating draining) = 1
   \<and> syncPendingOperations unreachable draining = draining
   \<and> fire unreachable SyncTrigger draining = draining"
proof -
  have ip: "isProcessing draining"
    by (simp add: draining_def run_def fresh_fields addPendingOperation_def enqueue_def
        savePendingOperations_def spawn_sync_def Let_def)
  from single_drain_pass [OF draining_def [unfolded fresh_def]] ip
  show ?thesis by (cases "floating draining") auto
qed

text \<open>
  C4. Along every run of the service that starts with one entry per identifier, the queue
  keeps one entry per identifier. When the queue is only changed through
  \<open>addPendingOperation\<close> and the drain, every entry holds the status and the timestamp of
  the last \<open>addPendingOperation\<close> for its identifier; and right after
  \<open>addPendingOperation(id, status)\<close> the queue holds the entry with that id, that status and
  the time of the call. Enqueuing for an identifier that is queued overwrites its entry.
\<close>

theorem one_entry_last_intent:
  assumes "one_entry_per_id (pendingOperations s)"
  shows "one_entry_per_id (pendingOperations (run env evs s))
    \<and> ((\<forall>ev\<in>set evs. \<not> calls_update ev) \<longrightarrow>
         holds_last_intent evs (pendingOperations (run env evs s)))
    \<and> \<lparr>op_id = i, op_status = st, timestamp = now\<rparr>
         \<in> set (pendingOperations (run env (evs @ [AddPending now i st]) s))"
proof -
  have "\<lparr>op_id = i, op_status = st, timestamp = now\<rparr>
         \<in> set (pendingOperations (run env (evs @ [AddPending now i st]) s))"
    using enqueue_queue_cases(2) [OF run_one_entry [OF assms, of env evs], of i st now]
    by (simp add: run_snoc addPendingOperation_queue)
  with run_one_entry [OF assms] run_last_intent [OF assms] show ?thesis by blast
qed

theorem one_entry_last_intent_witness:
  "one_entry_per_id (pendingOperations fresh)
   \<and> one_entry_per_id (pendingOperations
        (run unreachable [AddPending 1 (js ''a'') Pending, AddPending 2 (js ''b'') Cancelled, Resume 0,
                          AddPending 3 (js ''a'') Cancelled] fresh))
   \<and> holds_last_intent
        [AddPending 1 (js ''a'') Pending, AddPending 2 (js ''b'') Cancelled, Resume 0, AddPending 3 (js ''a'') Cancelled]
        (pendingOperations
          (run unreachable [AddPending 1 (js ''a'') Pending, AddPending 2 (js ''b'') Cancelled, Resume 0,
                            AddPending 3 (js ''a'') Cancelled] fresh))
   \<and> \<lparr>op_id = js ''a'', op_status = Cancelled, timestamp = 3\<rparr>
        \<in> set (pendingOperations
          (run unreachable ([AddPending 1 (js ''a'') Pending, AddPending 2 (js ''b'') Cancelled, Resume 0]
                            @ [AddPending 3 (js ''a'') Cancelled]) fresh))
   \<and> pendingOperations
        (run unreachable [AddPending 1 (js ''a'') Pending, AddPending 2 (js ''b'') Cancelled, Resume 0,
                          AddPending 3 (js ''a'') Cancelled] fresh)
       = [\<lparr>op_id = js ''a'', op_status = Cancelled, timestamp = 3\<rparr>,
          \<lparr>op_id = js ''b'', op_status = Cancelled, timestamp = 2\<rparr>]"
proof -
  have q: "one_entry_per_id (pendingOperations fresh)"
    by (simp add: fresh_fields one_entry_per_id_def)
  have nu: "\<forall>ev\<in>set [AddPending 1 (js ''a'') Pending, AddPending 2 (js ''b'') Cancelled, Resume 0,
                        AddPending 3 (js ''a'') Cancelled]. \<not> calls_update ev"
    by simp
  have ev: "pendingOperations
        (run unreachable [AddPending 1 (js ''a'') Pending, AddPending 2 (js ''b'') Cancelled, Resume 0,
                          AddPending 3 (js ''a'') Cancelled] fresh)
       = [\<lparr>op_id = js ''a'', op_status = Cancelled, timestamp = 3\<rparr>,
          \<lparr>op_id = js ''b'', op_status = Cancelled, timestamp = 2\<rparr>]"
    by (simp add: run_def addPendingOperation_def enqueue_def savePendingOperations_def
        spawn_sync_def resume_def finish_pass_def syncAppointmentToDatabase_def sync_endpoints_def
        endpoint_request_def unreachable_def trim_def  Let_def fresh_fields)
  from one_entry_last_intent [OF q, of unreachable
      "[AddPending 1 (js ''a'') Pending, AddPending 2 (js ''b'') Cancelled, Resume 0, AddPending 3 (js ''a'') Cancelled]"]
    one_entry_last_intent [OF q, of unreachable
      "[AddPending 1 (js ''a'') Pending, AddPending 2 (js ''b'') Cancelled, Resume 0]" "js ''a''" Cancelled 3]
    q nu ev
  show ?thesis by blast
qed

text \<open>
  C1. Take a queue with one entry per identifier, no pass running and the browser on line.
  When, in oldest-timestamp-first order, the operations \<open>succeeded\<close> sync one after the
  other and the next one, \<open>failed\<close>, does not, \<open>syncPendingOperations\<close> leaves the queue with
  exactly the operations of \<open>succeeded\<close> removed and the others where they were: their
  number is that of the queue minus that of \<open>succeeded\<close>, \<open>failed\<close> and everything after
  it in the snapshot are still queued, and the last request of the pass is the last one
  made for \<open>failed\<close>. (By \<open>pass_in_steps\<close> this is also what a pass leaves that was
  started without being awaited and resumed to its end.)
\<close>

theorem drain_stops_at_first_failure:
  assumes "\<not> isProcessing s" and "onLine s"
    and "one_entry_per_id (pendingOperations s)"
    and "sort_key timestamp (pendingOperations s) = succeeded @ failed # later"
    and "sync_all env succeeded (s\<lparr>isProcessing := True\<rparr>) = Some s1"
    and "syncAppointmentToDatabase env (op_id failed) (op_status failed) s1 = (Inl err, s2)"
  shows "pendingOperations (syncPendingOperations env s)
           = filter (\<lambda>op. op \<notin> set succeeded) (pendingOperations s)
    \<and> length (pendingOperations (syncPendingOperations env s))
           = length (pendingOperations s) - length succeeded
    \<and> failed \<in> set (pendingOperations (syncPendingOperations env s))
    \<and> set later \<subseteq> set (pendingOperations (syncPendingOperations env s))
    \<and> requests (syncPendingOperations env s) = requests s2
    \<and> \<not> isProcessing (syncPendingOperations env s)"
proof -
  let ?q = "pendingOperations s"
  from assms(4) have ne: "?q \<noteq> []" by (metis Nil_is_append_conv list.distinct(1) sort_key_simps(1))
  from assms(3) have d: "distinct (map op_id ?q)" by (simp add: one_entry_per_id_def)
  note fs = filter_synced [OF d assms(4)]
  have loop: "drain_loop env (sort_key timestamp ?q) [] (s\<lparr>isProcessing := True\<rparr>)
                = (map op_id succeeded, s2)"
    using drain_loop_stops [OF assms(5,6), of later "[]"] assms(4) by simp
  from sync_all_frame [OF assms(5)] sync_frame [OF assms(6)]
  have q2: "pendingOperations s2 = ?q" by simp
  have res: "syncPendingOperations env s = finish_pass (map op_id succeeded) s2"
    using assms(1,2) ne loop by (simp add: syncPendingOperations_def Let_def)
  have "pendingOperations (finish_pass (map op_id succeeded) s2)
          = filter (\<lambda>op. op \<notin> set succeeded) ?q"
  proof (cases "succeeded = []")
    case True
    then show ?thesis by (simp add: finish_pass_def q2)
  next
    case False
    then show ?thesis
      using fs(1) by (simp add: finish_pass_def savePendingOperations_def q2)
  qed
  with fs(2,3,4) show ?thesis
    unfolding res by (simp add: finish_pass_fields)
qed

theorem drain_stops_at_first_failure_witness:
  "pendingOperations (syncPendingOperations answers_once three_queued) = [op_a, op_c]
   \<and> length (pendingOperations (syncPendingOperations answers_once three_queued)) = 3 - 1
   \<and> length (requests (syncPendingOperations answers_once three_queued)) = 6
   \<and> \<not> isProcessing (syncPendingOperations answers_once three_queued)"
proof -
  let ?s1 = "three_queued\<lparr>isProcessing := True,
        requests := [\<lparr>req_method = js ''PATCH'', req_url = js ''/api/appointments/b'', req_data = Some Confirmed\<rparr>],
        lastSuccessfulEndpoint := Some \<lparr>url = js ''/api/appointments/b'', http_method = js ''PATCH''\<rparr>\<rparr>"
  let ?s2 = "snd (syncAppointmentToDatabase answers_once (op_id op_a) (op_status op_a) ?s1)"
  have h1: "\<not> isProcessing three_queued" and h2: "onLine three_queued"
    by (simp_all add: three_queued_fields)
  have h3: "one_entry_per_id (pendingOperations three_queued)"
    by (simp add: three_queued_fields one_entry_per_id_def op_a_def op_b_def op_c_def)
  have h4: "sort_key timestamp (pendingOperations three_queued) = [op_b] @ op_a # [op_c]"
    by (simp add: three_queued_fields op_a_def op_b_def op_c_def)
  have h5: "sync_all answers_once [op_b] (three_queued\<lparr>isProcessing := True\<rparr>) = Some ?s1"
    by (simp add: syncAppointmentToDatabase_def sync_endpoints_def answers_once_def
        endpoint_request_def op_b_def trim_def  Let_def three_queued_fields)
  have h6: "syncAppointmentToDatabase answers_once (op_id op_a) (op_status op_a) ?s1
              = (Inl (AxiosError NoResponse), ?s2)"
    by (simp add: syncAppointmentToDatabase_def sync_endpoints_def answers_once_def
        endpoint_request_def op_a_def trim_def  Let_def three_queued_fields)
  have len: "length (requests ?s2) = 6"
    by (simp add: syncAppointmentToDatabase_def sync_endpoints_def answers_once_def
        endpoint_request_def op_a_def trim_def  Let_def three_queued_fields)
  have ne: "op_a \<noteq> op_b" "op_c \<noteq> op_b"
    by (simp_all add: op_a_def op_b_def op_c_def)
  from drain_stops_at_first_failure [OF h1 h2 h3 h4 h5 h6] len ne
  show ?thesis by (simp add: three_queued_fields)
qed


text \<open>
  C5. A call of \<open>updateAppointmentStatus\<close> with a stored token and an id of at least 10
  characters after trimming, in which the request to the remembered endpoint (if there is
  one) and the requests to all ten candidates are rejected, for whatever reason, does not
  throw. It returns an appointment that has the wanted status; when it returns, the queue
  holds the entry with the trimmed id, the wanted status and the time of the call, and the
  durable copy of the queue agrees with it; every cached record with that id has been
  replaced by the returned appointment and the other cached records are as they were; the
  token is still there. The returned appointment is the record known for the trimmed id
  (the one in \<open>MOCK_DATA\<close>, else the first cached one with that id, else a new pending
  one) with the wanted status and the time of the call as \<open>updatedAt\<close>, and it carries
  the trimmed id; this much is said for identifiers that do not name a property every
  JavaScript object inherits. (That \<open>MOCK_DATA\<close> keeps under an identifier a record with
  that identifier holds in every state the service reaches from its start, by \<open>run_keyed\<close>
  and \<open>module_start_keyed\<close>.)
\<close>

theorem queued_when_no_endpoint_answers:
  assumes "token s = Some t" and "t \<noteq> []" and "10 \<le> length (trim ident)"
    and "all_fail env (requests s) (attempts env s (trim ident) st)"
  shows "\<exists>mock s'. updateAppointmentStatus env now ident st s = (Inr (Some mock), s')
     \<and> appt_status mock = st
     \<and> \<lparr>op_id = trim ident, op_status = st, timestamp = now\<rparr> \<in> set (pendingOperations s')
     \<and> pendingAppointmentOperations s' = Json (pendingOperations s')
     \<and> (\<forall>appointments. cachedAppointments s = Json appointments \<longrightarrow>
           cachedAppointments s'
             = Json (map (\<lambda>a. if appt_id a = trim ident then mock else a) appointments))
     \<and> token s' = token s
     \<and> (\<not> inherited_name (trim ident) \<longrightarrow>
           mock = (known_record now (trim ident) s)\<lparr>appt_status := st, updatedAt := now\<rparr>)
     \<and> (\<not> inherited_name (trim ident) \<and> mock_keyed_at s (trim ident) \<longrightarrow>
           appt_id mock = trim ident)"
proof -
  let ?c = "trim ident"
  let ?s2 = "s\<lparr>requests := requests s @ attempts env s ?c st\<rparr>"
  let ?s3 = "addPendingOperation now ?c st ?s2"
  obtain mock s' where mf: "mock_fallback now ?c st ?s3 = (mock, s')"
    by (cases "mock_fallback now ?c st ?s3")
  from assms(1,2) have tk: "token s \<noteq> None" "token s \<noteq> Some []" by auto
  have res: "updateAppointmentStatus env now ident st s = (Inr (Some mock), s')"
    using update_try_all_fail [OF tk assms(3,4), of now] mf by simp
  have kr: "known_record now ?c ?s3 = known_record now ?c s"
    by (rule known_record_cong) (simp_all add: addPendingOperation_fields)
  have m: "mock = (known_record now ?c s)\<lparr>appt_status := st, updatedAt := now\<rparr>"
    using fallback_mock(1) [OF mf] kr by simp
  have mid: "mock_keyed_at s ?c \<longrightarrow> appt_id mock = ?c"
    using known_record_id [of s ?c now] m by simp
  have q3: "pendingOperations ?s3 = pendingOperations (enqueue now ?c st ?s2)"
    by (rule addPendingOperation_queue)
  have p3: "pendingAppointmentOperations ?s3 = Json (pendingOperations ?s3)"
    by (simp add: addPendingOperation_def Let_def spawn_sync_fields enqueue_def savePendingOperations_def)
  have c3: "cachedAppointments ?s3 = cachedAppointments s" "token ?s3 = token s"
    by (simp_all add: addPendingOperation_def Let_def spawn_sync_fields enqueue_fields)
  from mock_fallback_fields(3,5,8) [OF mf] fallback_result(1,3) [OF mf] q3 p3 c3
    enqueue_member [of ?c st now ?s2] res m mid
  show ?thesis by auto
qed

theorem queued_when_no_endpoint_answers_witness:
  "updateAppointmentStatus unreachable 7 padded_x_id Cancelled signed_in
     = (Inr (Some (appt_x\<lparr>appt_status := Cancelled, updatedAt := 7\<rparr>)),
        snd (updateAppointmentStatus unreachable 7 padded_x_id Cancelled signed_in))
   \<and> appt_id (appt_x\<lparr>appt_status := Cancelled, updatedAt := 7\<rparr>) = x_id
   \<and> \<lparr>op_id = x_id, op_status = Cancelled, timestamp = 7\<rparr>
       \<in> set (pendingOperations (snd (updateAppointmentStatus unreachable 7 padded_x_id Cancelled signed_in)))
   \<and> cachedAppointments (snd (updateAppointmentStatus unreachable 7 padded_x_id Cancelled signed_in))
       = Json [appt_x\<lparr>appt_status := Cancelled, updatedAt := 7\<rparr>, appt_y]
   \<and> token (snd (updateAppointmentStatus unreachable 7 padded_x_id Cancelled signed_in))
       = Some (js ''jwt'')"
proof -
  have h3: "10 \<le> length (trim padded_x_id)"
    by (simp add: trim_padded)
  have h4: "all_fail unreachable (requests signed_in)
              (attempts unreachable signed_in (trim padded_x_id) Cancelled)"
    by (rule all_fail_always) (simp add: unreachable_def)
  have h5: "mock_keyed_at signed_in (trim padded_x_id)"
    by (simp add: mock_keyed_at_def signed_in_fields)
  have h6: "\<not> inherited_name (trim padded_x_id)"
    by (simp add: trim_padded inherited_name_def x_id_def)
  have kr: "known_record 7 x_id signed_in = appt_x"
    by (simp add: known_record_def signed_in_fields appt_ids)
  from queued_when_no_endpoint_answers [OF signed_in_fields(1) _ h3 h4, of 7] h5 h6 appt_ids
  show ?thesis by (auto simp: trim_padded signed_in_fields kr)
qed

text \<open>
  C6. A status change that the server refuses with 401 or 403 should fail, stay out of the
  queue and cost the stored token; the \<open>catch\<close> block of \<open>updateAppointmentStatus\<close> does
  remove the token for such an error. The error never reaches it: each loop swallows the
  rejection of its request, and the function returns from the fall-back code before the
  \<open>throw lastError\<close> that follows it. Evaluated on a session whose every request is
  answered with 401: the call returns the mock appointment, the operation is queued and
  the token is kept.
\<close>

theorem auth_failure_is_queued:
  "axios unauthorized [] (endpoint_request \<lparr>url = js ''/api/appointments/'' @ x_id, http_method = js ''PATCH''\<rparr> Cancelled)
     = Failure (Response 401 None ((js ''/api/appointments/'') @ x_id))
   \<and> fst (updateAppointmentStatus unauthorized 7 x_id Cancelled signed_in)
       = Inr (Some (appt_x\<lparr>appt_status := Cancelled, updatedAt := 7\<rparr>))
   \<and> pendingOperations (snd (updateAppointmentStatus unauthorized 7 x_id Cancelled signed_in))
       = [\<lparr>op_id = x_id, op_status = Cancelled, timestamp = 7\<rparr>]
   \<and> token (snd (updateAppointmentStatus unauthorized 7 x_id Cancelled signed_in)) = Some (js ''jwt'')
   \<and> token (snd (rethrow (AxiosError (Response 401 None ((js ''/api/appointments/'') @ x_id))) signed_in))
       = None"
proof -
  have "\<And>h r. \<not> answered (axios unauthorized h r)" by (simp add: unauthorized_def)
  from offline_cancel_evaluated(1,2) [OF this] show ?thesis
    by (simp add: update_keeps_token signed_in_fields unauthorized_def endpoint_request_def)
qed

text \<open>
  C2, as stated: the list that \<open>getUserAppointments\<close> returns shows an appointment with
  the status of its pending operation. It does not. After the first appointment was
  cancelled off line its cancellation is queued; the server then lists it as confirmed,
  and the call returns it as confirmed and caches it so; a later call that falls back to
  the cache returns it as confirmed again.
\<close>

theorem list_shows_server_status:
  "pendingOperations after_stale_fetch = [\<lparr>op_id = x_id, op_status = Cancelled, timestamp = 7\<rparr>]
   \<and> cachedAppointments after_stale_fetch = Json [appt_x, appt_y]
   \<and> appt_id appt_x = x_id \<and> appt_status appt_x = Confirmed
   \<and> fst (getUserAppointments stale_server after_offline_cancel) = [appt_x, appt_y]
   \<and> fst (getUserAppointments unreachable after_stale_fetch) = [appt_x, appt_y]"
proof -
  have nr: "\<And>h r. \<not> answered (axios unreachable h r)" by (simp add: unreachable_def)
  have q: "pendingOperations after_stale_fetch
             = [\<lparr>op_id = x_id, op_status = Cancelled, timestamp = 7\<rparr>]"
    by (simp add: after_stale_fetch_def after_offline_cancel_def getUserAppointments_queue
        offline_cancel_evaluated(2) [OF nr])
  have c: "cachedAppointments after_stale_fetch = Json [appt_x, appt_y]"
    by (simp add: after_stale_fetch_def getUserAppointments_cache stale_server_def)
  have f1: "fst (getUserAppointments stale_server after_offline_cancel) = [appt_x, appt_y]"
    by (simp add: getUserAppointments_result stale_server_def)
  have f2: "fst (getUserAppointments unreachable after_stale_fetch) = [appt_x, appt_y]"
    by (simp add: getUserAppointments_result c unreachable_def)
  from q c f1 f2 show ?thesis by (simp add: appt_ids)
qed

text \<open>
  C2, amended: \<open>getUserAppointments\<close> returns the server's list as it came when the request
  is answered, and stores that list as the cache; otherwise it returns the cached list as
  it is, or the empty list when the cache is missing or does not parse. The queue has no
  part in the result, and the call leaves the queue as it was.
\<close>

theorem list_returns_server_or_cache:
  "fst (getUserAppointments env s) =
     (case axios_get env (requests s) (list_request env) of
        Success data \<Rightarrow> data
      | Failure f \<Rightarrow>
          (case cachedAppointments s of
             Json appointments \<Rightarrow> appointments | Missing \<Rightarrow> [] | Garbled \<Rightarrow> []))
   \<and> fst (getUserAppointments env (s\<lparr>pendingOperations := q\<rparr>)) = fst (getUserAppointments env s)
   \<and> pendingOperations (snd (getUserAppointments env s)) = pendingOperations s
   \<and> cachedAppointments (snd (getUserAppointments env s)) =
       (case axios_get env (requests s) (list_request env) of
          Success data \<Rightarrow> Json data
        | Failure f \<Rightarrow> cachedAppointments s)"
  by (simp add: getUserAppointments_result getUserAppointments_cache getUserAppointments_queue
      split: outcome.splits)

theorem list_returns_server_or_cache_witness:
  "fst (getUserAppointments stale_server after_offline_cancel) = [appt_x, appt_y]
   \<and> fst (getUserAppointments unreachable signed_in) = [appt_x, appt_y]
   \<and> fst (getUserAppointments unreachable fresh) = []"
  using list_returns_server_or_cache [of stale_server after_offline_cancel "[]"]
    list_returns_server_or_cache [of unreachable signed_in "[]"]
    list_returns_server_or_cache [of unreachable fresh "[]"]
  by (simp add: stale_server_def unreachable_def signed_in_fields fresh_def module_start_def
      loadPendingOperations_def)

text \<open>
  C3, as stated: when the request to the remembered endpoint fails with a network error,
  the remembered endpoint is discarded before the scan. It is not: with a server that
  cannot be reached, the request to the remembered endpoint and the ten of the scan all
  fail, and \<open>lastSuccessfulEndpoint\<close> is afterwards what it was before.
\<close>

theorem remembered_endpoint_kept_after_failure:
  "axios unreachable (requests remembered) (cached_request earlier_endpoint x_id Cancelled)
     = Failure NoResponse
   \<and> all_fail unreachable (requests remembered) (attempts unreachable remembered x_id Cancelled)
   \<and> lastSuccessfulEndpoint (snd (updateAppointmentStatus unreachable 7 x_id Cancelled remembered))
       = Some earlier_endpoint"
proof -
  have nr: "\<And>h r. \<not> answered (axios unreachable h r)" by (simp add: unreachable_def)
  have af: "all_fail unreachable (requests remembered)
              (attempts unreachable remembered (trim x_id) Cancelled)"
    by (rule all_fail_always) (rule nr)
  have tk: "token remembered \<noteq> None" "token remembered \<noteq> Some []"
    by (simp_all add: remembered_fields)
  have h3: "10 \<le> length (trim x_id)" by (simp add: trim_padded)
  from update_all_fail_keeps_endpoint [OF tk h3 af, of 7] af show ?thesis
    by (simp add: trim_padded remembered_fields) (simp add: unreachable_def)
qed


text \<open>
  C3, amended: a call of \<open>updateAppointmentStatus\<close> that passes the token and id checks
  while an endpoint is remembered makes its first request to that endpoint: with the
  endpoint's method and the wanted status and, when the remembered address ends in a slash
  and an identifier of 24 lower-case hexadecimal digits (the first such place in the
  address) and the trimmed id holds no dollar sign, at that address with the current
  identifier substituted in. When that request is answered, its payload is returned and
  nothing else is asked. When it is rejected, for whatever reason, the ten candidates are
  asked in their fixed order; the first one that answers becomes \<open>lastSuccessfulEndpoint\<close>
  and its payload is returned. The remembered endpoint is not discarded: when no candidate
  answers it is still remembered after the call.
\<close>

theorem remembered_endpoint_first_then_scan:
  assumes "token s = Some t" and "t \<noteq> []" and "10 \<le> length (trim ident)"
    and "lastSuccessfulEndpoint s = Some e"
  shows "\<exists>first. req_method first = http_method e \<and> req_data first = Some st
    \<and> (ends_with_id (url e) \<and> Latin CHR ''$'' \<notin> set (trim ident) \<longrightarrow>
          first = substituted_request e (trim ident) st)
    \<and> (\<exists>more. requests (snd (updateAppointmentStatus env now ident st s))
            = requests s @ first # more)
    \<and> (\<forall>a. axios env (requests s) first = Success a \<longrightarrow>
          updateAppointmentStatus env now ident st s
            = (Inr a, s\<lparr>requests := requests s @ [first]\<rparr>))
    \<and> (\<forall>pre c post a.
          \<not> answered (axios env (requests s) first)
          \<and> candidate_endpoints (API_URL env) (trim ident) = pre @ c # post
          \<and> all_fail env (requests s @ [first]) (map (\<lambda>e. endpoint_request e st) pre)
          \<and> axios env (requests s @ first # map (\<lambda>e. endpoint_request e st) pre)
                (endpoint_request c st) = Success a \<longrightarrow>
          updateAppointmentStatus env now ident st s
            = (Inr a, s\<lparr>requests := requests s @ first
                                        # map (\<lambda>e. endpoint_request e st) pre @ [endpoint_request c st],
                        lastSuccessfulEndpoint := Some c\<rparr>))
    \<and> (all_fail env (requests s)
          (first # map (\<lambda>e. endpoint_request e st) (candidate_endpoints (API_URL env) (trim ident))) \<longrightarrow>
          lastSuccessfulEndpoint (snd (updateAppointmentStatus env now ident st s)) = Some e)"
proof -
  let ?first = "cached_request e (trim ident) st"
  from assms(1,2) have tk: "token s \<noteq> None" "token s \<noteq> Some []" by auto
  have att: "attempts env s (trim ident) st
      = ?first # map (\<lambda>e. endpoint_request e st) (candidate_endpoints (API_URL env) (trim ident))"
    by (simp add: attempts_def assms(4))
  have f: "req_method ?first = http_method e" "req_data ?first = Some st"
    by (simp_all add: cached_request_def)
  have w: "ends_with_id (url e) \<and> Latin CHR ''$'' \<notin> set (trim ident) \<longrightarrow>
          ?first = substituted_request e (trim ident) st"
    by (simp add: cached_request_substituted)
  note a = update_requests_prefix [OF tk assms(3,4), of env now st]
  note b = update_remembered_answers [OF tk assms(3,4), of env st _ now]
  note c = update_scan_finds [OF tk assms(3,4), of env st _ _ _ _ now]
  note d = update_all_fail_keeps_endpoint [OF tk assms(3), of env st now, unfolded att]
  from f w a b c d assms(4) show ?thesis
    by (intro exI [of _ ?first] conjI allI impI) auto
qed

theorem remembered_endpoint_first_then_scan_witness:
  "url earlier_endpoint = js ''/api/appointments/64b7f0a1c2d3e4f5a6b7c8da''
   \<and> updateAppointmentStatus third_answers 7 padded_x_id Cancelled remembered
     = (Inr (Some appt_x),
        remembered\<lparr>requests :=
            [\<lparr>req_method = js ''PATCH'', req_url = js ''/api/appointments/64b7f0a1c2d3e4f5a6b7c8d9'',
               req_data = Some Cancelled\<rparr>,
             \<lparr>req_method = js ''PATCH'', req_url = js ''/api/appointments/64b7f0a1c2d3e4f5a6b7c8d9'',
               req_data = Some Cancelled\<rparr>,
             \<lparr>req_method = js ''PUT'', req_url = js ''/api/appointments/status/64b7f0a1c2d3e4f5a6b7c8d9'',
               req_data = Some Cancelled\<rparr>],
          lastSuccessfulEndpoint :=
            Some \<lparr>url = js ''/api/appointments/status/64b7f0a1c2d3e4f5a6b7c8d9'', http_method = js ''PUT''\<rparr>\<rparr>)"
proof -
  let ?cs = "candidate_endpoints (API_URL third_answers) x_id"
  let ?creq = "substituted_request earlier_endpoint x_id Cancelled"
  have h3: "10 \<le> length (trim padded_x_id)" by (simp add: trim_padded)
  have h6: "Latin CHR ''$'' \<notin> set (trim padded_x_id)" by (simp add: trim_padded x_id_plain)
  have creq: "?creq = \<lparr>req_method = js ''PATCH'', req_url = js ''/api/appointments/64b7f0a1c2d3e4f5a6b7c8d9'',
               req_data = Some Cancelled\<rparr>"
    by (simp add: substituted_request_def earlier_endpoint_def x_id_def)
  have p1: "\<not> answered (axios third_answers (requests remembered) ?creq)"
    by (simp add: third_answers_def remembered_fields)
  have p2: "?cs = take 1 ?cs @ (?cs ! 1) # drop 2 ?cs"
    by (simp add: candidate_endpoints_def)
  have p3: "all_fail third_answers (requests remembered @ [?creq])
              (map (\<lambda>e. endpoint_request e Cancelled) (take 1 ?cs))"
    by (simp add: candidate_endpoints_def third_answers_def remembered_fields)
  have p4: "axios third_answers
              (requests remembered @ ?creq # map (\<lambda>e. endpoint_request e Cancelled) (take 1 ?cs))
              (endpoint_request (?cs ! 1) Cancelled) = Success (Some appt_x)"
    by (simp add: candidate_endpoints_def third_answers_def remembered_fields)
  have rs: "map (\<lambda>e. endpoint_request e Cancelled) (take 1 ?cs) @ [endpoint_request (?cs ! 1) Cancelled]
      = [\<lparr>req_method = js ''PATCH'', req_url = js ''/api/appointments/64b7f0a1c2d3e4f5a6b7c8d9'',
               req_data = Some Cancelled\<rparr>,
         \<lparr>req_method = js ''PUT'', req_url = js ''/api/appointments/status/64b7f0a1c2d3e4f5a6b7c8d9'',
               req_data = Some Cancelled\<rparr>]"
    and c2: "?cs ! 1 = \<lparr>url = js ''/api/appointments/status/64b7f0a1c2d3e4f5a6b7c8d9'', http_method = js ''PUT''\<rparr>"
    by (simp_all add: candidate_endpoints_def endpoint_request_def third_answers_def x_id_def)
  from remembered_endpoint_first_then_scan
         [OF remembered_fields(1) _ h3 remembered_fields(2),
          where env = third_answers and now = 7 and st = Cancelled, unfolded trim_padded(1)]
    earlier_endpoint_ends_with_id h6 [unfolded trim_padded(1)]
  have "updateAppointmentStatus third_answers 7 padded_x_id Cancelled remembered
     = (Inr (Some appt_x),
        remembered\<lparr>requests := requests remembered @ ?creq
             # map (\<lambda>e. endpoint_request e Cancelled) (take 1 ?cs) @ [endpoint_request (?cs ! 1) Cancelled],
          lastSuccessfulEndpoint := Some (?cs ! 1)\<rparr>)"
    using p1 p2 p3 p4 by blast
  then have "updateAppointmentStatus third_answers 7 padded_x_id Cancelled remembered
     = (Inr (Some appt_x),
        remembered\<lparr>requests :=
            [\<lparr>req_method = js ''PATCH'', req_url = js ''/api/appointments/64b7f0a1c2d3e4f5a6b7c8d9'',
               req_data = Some Cancelled\<rparr>,
             \<lparr>req_method = js ''PATCH'', req_url = js ''/api/appointments/64b7f0a1c2d3e4f5a6b7c8d9'',
               req_data = Some Cancelled\<rparr>,
             \<lparr>req_method = js ''PUT'', req_url = js ''/api/appointments/status/64b7f0a1c2d3e4f5a6b7c8d9'',
               req_data = Some Cancelled\<rparr>],
          lastSuccessfulEndpoint :=
            Some \<lparr>url = js ''/api/appointments/status/64b7f0a1c2d3e4f5a6b7c8d9'', http_method = js ''PUT''\<rparr>\<rparr>)"
    by (simp only: creq rs remembered_fields(3) append_Nil) (simp only: c2)
  then show ?thesis by (simp add: earlier_endpoint_def)
qed

text \<open>
  C8, as stated: no operation applies a further status to an appointment whose cached
  status is cancelled. The service does: asked to confirm the cancelled first appointment
  while the server cannot be reached, \<open>updateAppointmentStatus\<close> queues the confirmation and
  rewrites the cached record to confirmed.
\<close>

theorem cancelled_is_not_terminal:
  "cachedAppointments cancelled_x = Json [appt_x\<lparr>appt_status := Cancelled\<rparr>, appt_y]
   \<and> cachedAppointments (snd (updateAppointmentStatus unreachable 7 x_id Confirmed cancelled_x))
       = Json [appt_x\<lparr>appt_status := Confirmed, updatedAt := 7\<rparr>, appt_y]
   \<and> pendingOperations (snd (updateAppointmentStatus unreachable 7 x_id Confirmed cancelled_x))
       = [\<lparr>op_id = x_id, op_status = Confirmed, timestamp = 7\<rparr>]"
proof -
  have nr: "\<And>h r. \<not> answered (axios unreachable h r)" by (simp add: unreachable_def)
  have h3: "10 \<le> length (trim x_id)" by (simp add: trim_padded)
  have h4: "all_fail unreachable (requests cancelled_x)
              (attempts unreachable cancelled_x (trim x_id) Confirmed)"
    by (rule all_fail_always) (rule nr)
  have tk: "token cancelled_x \<noteq> None" "token cancelled_x \<noteq> Some []"
    by (simp_all add: cancelled_x_fields)
  note u = update_try_all_fail [OF tk h3 h4, of 7, unfolded trim_padded]
  show ?thesis
    unfolding u
    by (simp add: mock_fallback_def addPendingOperation_def enqueue_def spawn_sync_def
        savePendingOperations_def Let_def cancelled_x_fields appt_ids)
qed


text \<open>
  C8, amended: the service applies the status it is asked for without looking at the
  current one, so \<open>cancelled\<close> is final only as far as nothing but cancellations is asked
  of it. The cancel button of the appointment list is the one caller of
  \<open>updateAppointmentStatus\<close> in the repository, and it asks for \<open>cancelled\<close>. Take a run
  in which a status is asked of the service by that button only, from a state in which
  every queued operation, every operation in the snapshot of a pass in flight and every
  status sent so far is \<open>cancelled\<close> (the service starts in such a state when the stored
  queue is missing, unreadable or holds cancellations only, by \<open>module_start_cancel\<close>).
  Then the same is true at the end of the run; and over any stretch of the run without a
  listing of the appointments, each cached record has the status it had at the start of
  the stretch or is \<open>cancelled\<close>, so a record cached as cancelled stays so. Nothing is
  said across a listing, which stores whatever list the server returns.
\<close>

theorem list_only_cancels:
  assumes "cancel_only s" and "\<forall>ev\<in>set evs. from_the_list ev"
  shows "cancel_only (run env evs s)
    \<and> (\<forall>before between after.
          evs = before @ between @ after \<and> GetAppointments \<notin> set between \<longrightarrow>
          only_cancels (cachedAppointments (run env before s))
            (cachedAppointments (run env (before @ between) s)))"
proof -
  have "only_cancels (cachedAppointments (run env before s))
            (cachedAppointments (run env (before @ between) s))"
    if "evs = before @ between @ after" "GetAppointments \<notin> set between" for before between after
  proof -
    from that(1) assms(2) have "\<forall>ev\<in>set between. from_the_list ev" by auto
    from run_cache [OF this that(2)] show ?thesis by (simp add: run_append)
  qed
  with run_cancel [OF assms(2,1)] show ?thesis by blast
qed

theorem list_only_cancels_witness:
  "cancel_only signed_in
   \<and> cancel_only (run stale_server
         [CancelClicked 7 padded_x_id, GetAppointments, Resume 0, CancelClicked 9 x_id] signed_in)
   \<and> cachedAppointments (run stale_server [CancelClicked 7 padded_x_id] signed_in)
       = Json [appt_x\<lparr>appt_status := Cancelled, updatedAt := 7\<rparr>, appt_y]
   \<and> only_cancels (cachedAppointments signed_in)
         (cachedAppointments (run stale_server [CancelClicked 7 padded_x_id] signed_in))
   \<and> only_cancels
         (cachedAppointments (run stale_server [CancelClicked 7 padded_x_id, GetAppointments] signed_in))
         (cachedAppointments (run stale_server
            [CancelClicked 7 padded_x_id, GetAppointments, Resume 0, CancelClicked 9 x_id] signed_in))"
proof -
  let ?evs = "[CancelClicked 7 padded_x_id, GetAppointments, Resume 0, CancelClicked 9 x_id]"
  have h1: "cancel_only signed_in"
    by (simp add: cancel_only_def signed_in_fields)
  have h2: "\<forall>ev\<in>set ?evs. from_the_list ev"
    by simp
  have tk: "token signed_in \<noteq> None" "token signed_in \<noteq> Some []"
    by (simp_all add: signed_in_fields)
  have h3: "10 \<le> length (trim padded_x_id)"
    by (simp add: trim_padded)
  have h4: "all_fail stale_server (requests signed_in)
              (attempts stale_server signed_in (trim padded_x_id) Cancelled)"
    by (rule all_fail_always) (simp add: stale_server_def)
  have kr: "known_record 7 x_id signed_in = appt_x"
    by (simp add: known_record_def signed_in_fields appt_ids)
  have c1: "cachedAppointments (run stale_server [CancelClicked 7 padded_x_id] signed_in)
       = Json [appt_x\<lparr>appt_status := Cancelled, updatedAt := 7\<rparr>, appt_y]"
    using update_all_fail_result(2) [OF tk h3 h4, of 7] appt_ids
    by (simp add: run_def handleCancelAppointment_def trim_padded signed_in_fields kr)
  note t = list_only_cancels [OF h1 h2, of stale_server]
  from t have a: "cancel_only (run stale_server ?evs signed_in)"
    by simp
  from t [THEN conjunct2, rule_format, of "[]" "[CancelClicked 7 padded_x_id]"
            "[GetAppointments, Resume 0, CancelClicked 9 x_id]"]
  have b: "only_cancels (cachedAppointments signed_in)
         (cachedAppointments (run stale_server [CancelClicked 7 padded_x_id] signed_in))"
    by (simp add: run_def)
  from t [THEN conjunct2, rule_format, of "[CancelClicked 7 padded_x_id, GetAppointments]"
            "[Resume 0, CancelClicked 9 x_id]" "[]"]
  have c: "only_cancels
         (cachedAppointments (run stale_server [CancelClicked 7 padded_x_id, GetAppointments] signed_in))
         (cachedAppointments (run stale_server ?evs signed_in))"
    by simp
  from h1 a c1 b c show ?thesis by simp
qed
end
